theory Spec2Isabelle
  imports Main "HOL-Library.Word"
begin

unbundle bit_operations_syntax

section \<open>Node registry (bbs/node.c)\<close>

text \<open>
  Machine integers. The registry counts and numbers nodes with C \<open>unsigned int\<close>
  values; they are natural numbers here and every increment wraps at \<open>2 ^ 32\<close>.
\<close>

definition u32 :: "nat \<Rightarrow> nat" where
  "u32 n = n mod 4294967296"

text \<open>
  \<open>struct bbs_node\<close>, with the fields the registry, the shutdown routine and the
  window-size update read or write. File descriptors and process ids are C \<open>int\<close>s,
  \<open>n_user\<close> is the (nullable) user pointer, \<open>n_module\<close> the (nullable) module handle,
  \<open>n_ptythread\<close> and \<open>n_thread\<close> are thread handles (0 when unset).
\<close>

record bbs_node =
  n_id :: nat
  n_fd :: int
  n_rfd :: int
  n_wfd :: int
  n_amaster :: int
  n_slavefd :: int
  n_spyfd :: int
  n_spyfdin :: int
  n_user :: "nat option"
  n_active :: bool
  n_created :: int
  n_echo :: bool
  n_buffered :: bool
  n_ansi :: bool
  n_protname :: string
  n_module :: "nat option"
  n_childpid :: int
  n_ptythread :: nat
  n_thread :: nat
  n_spy :: bool
  n_skipjoin :: bool
  n_cols :: nat
  n_rows :: nat
  n_inmenu :: bool

text \<open>
  The file-level state of node.c: the list \<open>nodes\<close>, \<open>shutting_down\<close>, \<open>maxnodes\<close>
  and \<open>lifetime_nodes\<close>.
\<close>

record registry =
  nodes :: "bbs_node list"
  shutting_down :: int
  maxnodes :: nat
  lifetime_nodes :: int

datatype abort = AssertionFailed

text \<open>
  The traversal of \<open>__bbs_node_request\<close>: \<open>pos\<close> is the position of the current
  element, \<open>prev\<close> the position of the node the new one is inserted after (the C
  pointer \<open>prev\<close>, \<open>None\<close> for \<open>NULL\<close>). \<open>bbs_assert\<close> aborts the process.
\<close>

fun request_traverse ::
  "bbs_node list \<Rightarrow> nat \<Rightarrow> nat \<Rightarrow> nat \<Rightarrow> bool \<Rightarrow> nat option
     \<Rightarrow> abort + (nat \<times> nat \<times> nat option)" where
  "request_traverse [] pos count newnodenumber keeplooking prev =
     Inr (count, newnodenumber, prev)"
| "request_traverse (node # rest) pos count newnodenumber keeplooking prev =
     (if keeplooking then
        (if n_id node = newnodenumber then
           request_traverse rest (Suc pos) (u32 (count + 1)) (u32 (newnodenumber + 1)) True (Some pos)
         else if n_id node > newnodenumber then
           request_traverse rest (Suc pos) (u32 (count + 1)) newnodenumber False prev
         else Inl AssertionFailed)
      else request_traverse rest (Suc pos) (u32 (count + 1)) newnodenumber False prev)"

text \<open>\<open>calloc\<close> followed by the field initialisation of \<open>__bbs_node_request\<close>.\<close>

definition new_node :: "nat \<Rightarrow> int \<Rightarrow> string \<Rightarrow> nat option \<Rightarrow> int \<Rightarrow> bbs_node" where
  "new_node newnodenumber fd protname owner now =
     \<lparr> n_id = newnodenumber, n_fd = fd, n_rfd = fd, n_wfd = fd,
       n_amaster = - 1, n_slavefd = - 1, n_spyfd = - 1, n_spyfdin = - 1,
       n_user = None, n_active = True, n_created = now,
       n_echo = True, n_buffered = True, n_ansi = True,
       n_protname = protname, n_module = owner,
       n_childpid = 0, n_ptythread = 0, n_thread = 0, n_spy = False, n_skipjoin = False,
       n_cols = 0, n_rows = 0, n_inmenu = False \<rparr>"

text \<open>\<open>RWLIST_INSERT_AFTER\<close> at the position of \<open>prev\<close>, \<open>RWLIST_INSERT_HEAD\<close> otherwise.\<close>

definition insert_node :: "nat option \<Rightarrow> bbs_node \<Rightarrow> bbs_node list \<Rightarrow> bbs_node list" where
  "insert_node prev node ns =
     (case prev of
        None \<Rightarrow> node # ns
      | Some p \<Rightarrow> take (Suc p) ns @ node # drop (Suc p) ns)"

text \<open>
  \<open>__bbs_node_request\<close>. \<open>alloc_ok\<close> is whether \<open>calloc\<close> succeeds and \<open>now\<close> is
  \<open>time(NULL)\<close>. The result is the returned node (\<open>None\<close> for \<open>NULL\<close>) and the new
  file-level state, or the abort of a failed assertion.
\<close>

definition bbs_node_request ::
  "registry \<Rightarrow> int \<Rightarrow> string \<Rightarrow> nat option \<Rightarrow> bool \<Rightarrow> int
     \<Rightarrow> abort + (bbs_node option \<times> registry)" where
  "bbs_node_request r fd protname owner alloc_ok now =
     (if fd \<le> 2 then Inr (None, r)
      else if shutting_down r \<noteq> 0 then Inr (None, r)
      else
        (case request_traverse (nodes r) 0 0 1 True None of
           Inl e \<Rightarrow> Inl e
         | Inr (count, newnodenumber, prev) \<Rightarrow>
             if count \<ge> maxnodes r then Inr (None, r)
             else if \<not> alloc_ok then Inr (None, r)
             else
               (let node = new_node newnodenumber fd protname owner now
                in Inr (Some node,
                        r\<lparr> nodes := insert_node prev node (nodes r),
                           lifetime_nodes := lifetime_nodes r + 1 \<rparr>))))"

text \<open>
  \<open>RWLIST_REMOVE\<close>: unlink the given element if it is in the list; the result says
  whether it was.
\<close>

definition list_remove :: "bbs_node \<Rightarrow> bbs_node list \<Rightarrow> bool \<times> bbs_node list" where
  "list_remove node ns = (node \<in> set ns, remove1 node ns)"

text \<open>
  The effect of \<open>bbs_node_unlink\<close> on the registry (the node itself is shut down and
  freed afterwards). It returns 0 whether or not the node was still linked.
\<close>

definition bbs_node_unlink :: "registry \<Rightarrow> bbs_node \<Rightarrow> int \<times> registry" where
  "bbs_node_unlink r node =
     (let (found, ns) = list_remove node (nodes r) in (0, r\<lparr> nodes := ns \<rparr>))"

text \<open>\<open>RWLIST_REMOVE_BY_FIELD\<close> on the id: the first node with that id is unlinked.\<close>

fun remove_by_id :: "nat \<Rightarrow> bbs_node list \<Rightarrow> bbs_node option \<times> bbs_node list" where
  "remove_by_id k [] = (None, [])"
| "remove_by_id k (n # ns) =
     (if n_id n = k then (Some n, ns)
      else (let (found, ns') = remove_by_id k ns in (found, n # ns')))"

definition bbs_node_shutdown_node :: "registry \<Rightarrow> nat \<Rightarrow> int \<times> registry" where
  "bbs_node_shutdown_node r nodenum =
     (case remove_by_id nodenum (nodes r) of
        (Some n, ns) \<Rightarrow> (0, r\<lparr> nodes := ns \<rparr>)
      | (None, ns) \<Rightarrow> (- 1, r))"

text \<open>\<open>bbs_node_shutdown_mod\<close>: the first node owned by the module is unlinked.\<close>

fun remove_by_mod :: "nat option \<Rightarrow> bbs_node list \<Rightarrow> nat \<times> bbs_node list" where
  "remove_by_mod m [] = (0, [])"
| "remove_by_mod m (n # ns) =
     (if n_module n \<noteq> m then (let (c, ns') = remove_by_mod m ns in (c, n # ns'))
      else (1, ns))"

definition bbs_node_shutdown_mod :: "registry \<Rightarrow> nat option \<Rightarrow> nat \<times> registry" where
  "bbs_node_shutdown_mod r m =
     (let (count, ns) = remove_by_mod m (nodes r) in (count, r\<lparr> nodes := ns \<rparr>))"

text \<open>\<open>bbs_node_shutdown_all\<close>: store the flag, unlink every node.\<close>

definition bbs_node_shutdown_all :: "registry \<Rightarrow> int \<Rightarrow> int \<times> registry" where
  "bbs_node_shutdown_all r shutdown = (0, r\<lparr> shutting_down := shutdown, nodes := [] \<rparr>)"

definition bbs_node_count :: "registry \<Rightarrow> nat" where
  "bbs_node_count r = foldl (\<lambda>count node. u32 (count + 1)) 0 (nodes r)"

text \<open>The registry before the first request, as \<open>load_config\<close> leaves it.\<close>

definition initial_registry :: "nat \<Rightarrow> registry" where
  "initial_registry m = \<lparr> nodes = [], shutting_down = 0, maxnodes = m, lifetime_nodes = 0 \<rparr>"

text \<open>Calls into the registry, and a run of them from a given state.\<close>

datatype registry_call =
    Request int string "nat option" bool int
  | Unlink bbs_node
  | ShutdownNode nat
  | ShutdownMod "nat option"
  | ShutdownAll int

fun registry_step :: "registry \<Rightarrow> registry_call \<Rightarrow> abort + registry" where
  "registry_step r (Request fd protname owner alloc_ok now) =
     (case bbs_node_request r fd protname owner alloc_ok now of
        Inl e \<Rightarrow> Inl e
      | Inr (res, r') \<Rightarrow> Inr r')"
| "registry_step r (Unlink node) = Inr (snd (bbs_node_unlink r node))"
| "registry_step r (ShutdownNode k) = Inr (snd (bbs_node_shutdown_node r k))"
| "registry_step r (ShutdownMod m) = Inr (snd (bbs_node_shutdown_mod r m))"
| "registry_step r (ShutdownAll flag) = Inr (snd (bbs_node_shutdown_all r flag))"

fun registry_run :: "registry \<Rightarrow> registry_call list \<Rightarrow> abort + registry" where
  "registry_run r [] = Inr r"
| "registry_run r (c # cs) =
     (case registry_step r c of Inl e \<Rightarrow> Inl e | Inr r' \<Rightarrow> registry_run r' cs)"

definition live_ids :: "registry \<Rightarrow> nat set" where
  "live_ids r = n_id ` set (nodes r)"

text \<open>
  What holds of the list between calls: the ids increase strictly along it, each is at
  least \<open>k\<close> (1 for the whole list); and no id exceeds \<open>maxnodes\<close>, itself an
  \<open>unsigned int\<close>.
\<close>

definition ids_from :: "nat \<Rightarrow> bbs_node list \<Rightarrow> bool" where
  "ids_from k ns \<longleftrightarrow> sorted_wrt (<) (map n_id ns) \<and> (\<forall>n \<in> set ns. k \<le> n_id n)"

definition reg_inv :: "registry \<Rightarrow> bool" where
  "reg_inv r \<longleftrightarrow>
     ids_from 1 (nodes r) \<and> (\<forall>n \<in> set (nodes r). n_id n \<le> maxnodes r) \<and> maxnodes r < 4294967296"

section \<open>Node shutdown and window size (bbs/node.c)\<close>

text \<open>
  What a routine does to the outside world is recorded as a list of effects, in the
  order of the calls: signals, descriptor closes, writes, thread joins, dispatched events
  and the messages of \<open>bbs_error\<close>.
\<close>

datatype signal = SIGINT | SIGTERM | SIGKILL | SIGWINCH

datatype effect =
    LogError string
  | KillChild int
  | UserDestroy nat
  | BufferInput nat
  | WriteColorReset int
  | SocketClose int
  | ThreadJoin nat
  | SpyNotice int nat
  | ShortSessionEvent nat
  | Tiocswinsz int nat nat
  | Signal int signal
  | WriteMenuRefresh int

text \<open>
  \<open>bbs_node_kill_child\<close>: nothing (and \<open>-1\<close>) without a child, \<open>kill_pid\<close> on it
  otherwise. \<open>kill_pid\<close> escalates from \<open>SIGINT\<close> to \<open>SIGKILL\<close> for as long as the
  thread that waits on the child has not cleared the pid; the escalation is one effect.
\<close>

definition bbs_node_kill_child :: "bbs_node \<Rightarrow> effect list" where
  "bbs_node_kill_child node = (if n_childpid node \<noteq> 0 then [KillChild (n_childpid node)] else [])"

text \<open>\<open>bbs_node_logout\<close>: \<open>bbs_user_destroy\<close> on the user, whose pointer is cleared.\<close>

definition bbs_node_logout :: "bbs_node \<Rightarrow> bbs_node \<times> effect list" where
  "bbs_node_logout node =
     (node\<lparr> n_user := None \<rparr>, (case n_user node of None \<Rightarrow> [] | Some u \<Rightarrow> [UserDestroy u]))"

text \<open>
  \<open>bbs_socket_close\<close> is not among the sources: it closes the descriptor a variable
  holds and stores \<open>-1\<close> in the variable, the value \<open>node_shutdown\<close> tests for.
\<close>

definition bbs_socket_close :: "int \<Rightarrow> int \<times> effect list" where
  "bbs_socket_close fd = (- 1, [SocketClose fd])"

text \<open>
  \<open>node_shutdown\<close>. \<open>sd\<close> is the file-level \<open>shutting_down\<close> and \<open>now\<close> the value of
  \<open>time(NULL)\<close>. The terminal restore of a node whose slave is still open is
  \<open>bbs_node_buffer_input(node, 1)\<close>, which puts the node back into canonical mode with
  echo, followed by the write of \<open>COLOR_RESET\<close> to the socket.
\<close>

definition shutdown_terminal :: "bbs_node \<Rightarrow> bbs_node \<times> effect list" where
  "shutdown_terminal node =
     (if n_slavefd node \<noteq> - 1 then
        (node\<lparr> n_buffered := True, n_echo := True \<rparr>,
         [BufferInput (n_id node), WriteColorReset (n_wfd node)])
      else (node, []))"

definition shutdown_pty :: "bbs_node \<Rightarrow> bbs_node \<times> effect list" where
  "shutdown_pty node =
     (if n_ptythread node \<noteq> 0 then
        (let (m, e1) = (if n_amaster node \<noteq> - 1 then bbs_socket_close (n_amaster node)
                        else (n_amaster node, []));
             (s, e2) = (if n_slavefd node \<noteq> - 1 then bbs_socket_close (n_slavefd node)
                        else (n_slavefd node, []));
             e3 = [ThreadJoin (n_ptythread node)];
             e4 = (if n_spy node then [SpyNotice (n_spyfd node) (n_id node)] else [])
         in (node\<lparr> n_amaster := m, n_slavefd := s, n_spy := False \<rparr>, e1 @ e2 @ e3 @ e4))
      else (node, []))"

definition shutdown_socket :: "bbs_node \<Rightarrow> bbs_node \<times> effect list" where
  "shutdown_socket node =
     (if n_fd node \<noteq> 0 then
        (let (f, e) = bbs_socket_close (n_fd node) in (node\<lparr> n_fd := f \<rparr>, e))
      else (node, []))"

definition node_shutdown :: "int \<Rightarrow> int \<Rightarrow> bbs_node \<Rightarrow> int \<Rightarrow> bbs_node \<times> effect list" where
  "node_shutdown sd now node unique =
     (if \<not> n_active node then
        (node, [LogError ''Attempt to shut down already inactive node''])
      else
        (let n0 = node\<lparr> n_active := False \<rparr>;
             e0 = bbs_node_kill_child n0;
             wasloggedin = (n_user n0 \<noteq> None);
             (n1, e1) = (if wasloggedin then bbs_node_logout n0 else (n0, []));
             (n2, e2) = shutdown_terminal n1;
             (n3, e3) = shutdown_pty n2;
             (n4, e4) = shutdown_socket n3;
             e5 = (if \<not> wasloggedin \<and> sd = 0 \<and> now < n_created n4 + 5
                   then [ShortSessionEvent (n_id n4)] else []);
             e6 = (if unique = 0 then
                     (if n_skipjoin n4 then [] else [ThreadJoin (n_thread n4)])
                   else [])
         in (n4, e0 @ e1 @ e2 @ e3 @ e4 @ e5 @ e6)))"

text \<open>Every effect but a logged message acts on the client, the child or a descriptor.\<close>

fun is_action :: "effect \<Rightarrow> bool" where
  "is_action (LogError s) = False"
| "is_action e = True"

datatype effect_kind =
  Logged | ChildKill | Logout | TerminalRestore | DescriptorClose | ThreadWait | Notice | Resize

fun kind_of :: "effect \<Rightarrow> effect_kind" where
  "kind_of (LogError s) = Logged"
| "kind_of (KillChild p) = ChildKill"
| "kind_of (UserDestroy u) = Logout"
| "kind_of (BufferInput n) = TerminalRestore"
| "kind_of (WriteColorReset fd) = TerminalRestore"
| "kind_of (SocketClose fd) = DescriptorClose"
| "kind_of (ThreadJoin t) = ThreadWait"
| "kind_of (SpyNotice fd n) = Notice"
| "kind_of (ShortSessionEvent n) = Notice"
| "kind_of (Tiocswinsz fd r c) = Resize"
| "kind_of (Signal p s) = Resize"
| "kind_of (WriteMenuRefresh fd) = Resize"

definition occurrences :: "effect_kind \<Rightarrow> effect list \<Rightarrow> nat" where
  "occurrences k es = length (filter (\<lambda>e. kind_of e = k) es)"

text \<open>
  \<open>bbs_node_update_winsize\<close>. The results of \<open>ioctl\<close>, \<open>kill\<close> and \<open>write\<close> only
  decide whether an error is logged. The fields of \<open>struct winsize\<close> are
  \<open>unsigned short\<close>, so the stored sizes are truncated to 16 bits for the \<open>ioctl\<close>.
\<close>

record winsize_io =
  ioctl_res :: int
  kill_res :: int
  write_res :: int

definition bbs_node_update_winsize ::
  "winsize_io \<Rightarrow> bbs_node \<Rightarrow> int \<Rightarrow> int \<Rightarrow> int \<times> bbs_node \<times> effect list" where
  "bbs_node_update_winsize io node cols rows =
     (let oldcols = n_cols node; oldrows = n_rows node;
          node' = (if rows \<ge> 0 \<and> cols \<ge> 0
                   then node\<lparr> n_cols := nat cols, n_rows := nat rows \<rparr> else node);
          child = n_childpid node';
          ws_row = n_rows node' mod 65536;
          ws_col = n_cols node' mod 65536
      in if n_amaster node' = - 1 then (0, node', [])
         else if child \<noteq> 0 then
           (0, node',
            [Tiocswinsz (n_amaster node') ws_row ws_col]
            @ (if ioctl_res io \<noteq> 0 then [LogError ''TIOCSWINSZ failed''] else [])
            @ [Signal child SIGWINCH]
            @ (if kill_res io \<noteq> 0 then [LogError ''SIGWINCH failed''] else []))
         else if n_inmenu node' then
           (if n_cols node' < oldcols \<or> (n_rows node' < oldrows \<and> n_cols node' > oldcols) then
              (if \<not> n_buffered node' then
                 (0, node',
                  [WriteMenuRefresh (n_amaster node')]
                  @ (if write_res io \<noteq> 1 then [LogError ''Screen refresh failed''] else []))
               else (0, node', [LogError ''In menu but input is buffered?'']))
            else (0, node', []))
         else (0, node', []))"

section \<open>Login and SASL authentication (bbs/node.c, nets/net_irc.c)\<close>

type_synonym bytes = "8 word list"

text \<open>
  \<open>authenticate\<close> of node.c. Each pass of its loop makes a fixed sequence of calls on
  the node; \<open>attempt_io\<close> holds what each of them returns in one pass, with the user
  name the login prompt read and the bytes the password read stored in the buffer. The
  macros \<open>NEG_RETURN\<close>, \<open>NONPOS_RETURN\<close> and \<open>NONZERO_NEGRETURN\<close> leave the function
  with \<open>-1\<close> when the result is negative, not positive, or not zero.
\<close>

record attempt_io =
  is_tdd :: bool
  buffer_res :: int
  banner_res :: int
  guest_banner_res :: int
  newline_res :: int
  login_prompt_res :: int
  username_res :: int
  typed_username :: string
  register_res :: int
  guest_name_res :: int
  guest_email_res :: int
  guest_location_res :: int
  guest_auth_res :: int
  echo_off_res :: int
  password_prompt_res :: int
  password_res :: int
  password_stored :: bytes
  auth_res :: int
  echo_on_res :: int

record login_config =
  allow_guest :: bool
  guest_ask_info :: bool

datatype outcome = Return int | Break | Continue

definition tolower :: "char \<Rightarrow> char" where
  "tolower c = (let n = (of_char c :: nat) in if 65 \<le> n \<and> n \<le> 90 then char_of (n + 32) else c)"

definition strcasecmp_equal :: "string \<Rightarrow> string \<Rightarrow> bool" where
  "strcasecmp_equal a b = (map tolower a = map tolower b)"

text \<open>
  The password buffer is \<open>char password[64]\<close>. A read stores the bytes it received at
  the start of the buffer, at most 64 of them, whether it then succeeds or not;
  \<open>bbs_memzero\<close> clears all 64.
\<close>

definition password_size :: nat where
  "password_size = 64"

definition stored_in :: "bytes \<Rightarrow> bytes \<Rightarrow> bytes" where
  "stored_in received buf =
     take password_size received @ drop (length (take password_size received)) buf"

definition bbs_memzero :: "bytes \<Rightarrow> nat \<Rightarrow> bytes" where
  "bbs_memzero buf n = replicate n 0 @ drop n buf"

definition password_attempt :: "attempt_io \<Rightarrow> bytes \<Rightarrow> outcome \<times> bytes" where
  "password_attempt io password =
     (if echo_off_res io < 0 then (Return (- 1), password)
      else if password_prompt_res io < 0 then (Return (- 1), password)
      else
        (let password1 = stored_in (password_stored io) password in
         if password_res io \<le> 0 then (Return (- 1), password1)
         else
           (let res = auth_res io;
                password2 = bbs_memzero password1 password_size
            in if echo_on_res io < 0 then (Return (- 1), password2)
               else if res = 0 then (Break, password2)
               else (Continue, password2))))"

definition guest_attempt :: "login_config \<Rightarrow> attempt_io \<Rightarrow> outcome" where
  "guest_attempt cfg io =
     (if allow_guest cfg then
        (if guest_ask_info cfg then
           (if guest_name_res io \<noteq> 0 then Return (- 1)
            else if guest_email_res io \<noteq> 0 then Return (- 1)
            else if guest_location_res io \<noteq> 0 then Return (- 1)
            else if guest_auth_res io < 0 then Return (- 1)
            else Break)
         else if guest_auth_res io < 0 then Return (- 1)
         else Break)
      else Continue)"

definition login_attempt :: "login_config \<Rightarrow> attempt_io \<Rightarrow> bytes \<Rightarrow> outcome \<times> bytes" where
  "login_attempt cfg io password =
     (if buffer_res io < 0 then (Return (- 1), password)
      else if \<not> is_tdd io \<and> banner_res io < 0 then (Return (- 1), password)
      else if \<not> is_tdd io \<and> allow_guest cfg \<and> guest_banner_res io < 0 then (Return (- 1), password)
      else if \<not> is_tdd io \<and> newline_res io < 0 then (Return (- 1), password)
      else if login_prompt_res io < 0 then (Return (- 1), password)
      else if username_res io \<le> 0 then (Return (- 1), password)
      else if strcasecmp_equal (typed_username io) ''Quit''
              \<or> strcasecmp_equal (typed_username io) ''Exit'' then (Return (- 1), password)
      else if strcasecmp_equal (typed_username io) ''New'' then
        (if register_res io = 0 then (Break, password) else (Return (- 1), password))
      else if strcasecmp_equal (typed_username io) ''Guest'' then (guest_attempt cfg io, password)
      else password_attempt io password)"

text \<open>
  The loop runs at most \<open>MAX_AUTH_ATTEMPTS\<close> passes; \<open>ios i\<close> is what the calls of pass
  \<open>i\<close> return. After a \<open>break\<close> the function asserts that the node is logged in.
\<close>

datatype loop_exit = Returned int | Broke | Exhausted

fun login_loop ::
  "login_config \<Rightarrow> (nat \<Rightarrow> attempt_io) \<Rightarrow> nat \<Rightarrow> nat \<Rightarrow> bytes \<Rightarrow> loop_exit \<times> bytes" where
  "login_loop cfg ios 0 attempts password = (Exhausted, password)"
| "login_loop cfg ios (Suc left) attempts password =
     (case login_attempt cfg (ios attempts) password of
        (Return r, password') \<Rightarrow> (Returned r, password')
      | (Break, password') \<Rightarrow> (Broke, password')
      | (Continue, password') \<Rightarrow> login_loop cfg ios left (Suc attempts) password')"

definition MAX_AUTH_ATTEMPTS :: nat where
  "MAX_AUTH_ATTEMPTS = 3"

definition authenticate ::
  "login_config \<Rightarrow> (nat \<Rightarrow> attempt_io) \<Rightarrow> bool \<Rightarrow> bytes \<Rightarrow> (abort + int) \<times> bytes" where
  "authenticate cfg ios logged_in password =
     (case login_loop cfg ios MAX_AUTH_ATTEMPTS 0 password of
        (Returned r, password') \<Rightarrow> (Inr r, password')
      | (Exhausted, password') \<Rightarrow> (Inr (- 1), password')
      | (Broke, password') \<Rightarrow>
          (if logged_in then Inr 0 else Inl AssertionFailed, password'))"

text \<open>
  \<open>do_sasl_auth\<close> of net_irc.c. \<open>decode\<close> is \<open>base64_decode\<close>, which yields the
  decoded bytes (their number is \<open>outlen\<close>) or \<open>NULL\<close>; \<open>res\<close> is what
  \<open>bbs_authenticate\<close> returns. \<open>strlen\<close> counts up to the first zero byte; when the
  bytes from a position on hold none, it counts at least to their end, and a string that
  starts there is taken to end with them. The user name and the password handed to
  \<open>bbs_authenticate\<close> are the C strings at their positions. The trace records that
  call and, at each \<open>free\<close>, the bytes the buffer then holds.
\<close>

datatype sasl_event =
    SaslAuthenticate bytes bytes
  | SaslFree bytes
  | SaslNumeric nat

fun c_strlen :: "bytes \<Rightarrow> nat" where
  "c_strlen [] = 0"
| "c_strlen (b # bs) = (if b = 0 then 0 else Suc (c_strlen bs))"

definition bytes_of :: "string \<Rightarrow> bytes" where
  "bytes_of s = map (\<lambda>c. of_char c) s"

definition STARTS_WITH :: "string \<Rightarrow> string \<Rightarrow> bool" where
  "STARTS_WITH s prefix = (take (length prefix) s = prefix)"

definition do_sasl_auth ::
  "(string \<Rightarrow> bytes option) \<Rightarrow> int \<Rightarrow> string \<Rightarrow> string \<Rightarrow> int \<times> sasl_event list" where
  "do_sasl_auth decode res user_nickname s =
     (if \<not> STARTS_WITH s ''AUTHENTICATE '' then (- 1, [])
      else
        (case decode (drop (length ''AUTHENTICATE '') s) of
           None \<Rightarrow> (- 1, [])
         | Some decoded \<Rightarrow>
             (let outlen = length decoded;
                  nickname = take (c_strlen decoded) decoded;
                  runlen1 = c_strlen decoded + 1
              in if runlen1 \<ge> outlen then (- 1, [SaslFree decoded])
                 else
                   (let username = take (c_strlen (drop runlen1 decoded)) (drop runlen1 decoded);
                        runlen2 = runlen1 + c_strlen (drop runlen1 decoded) + 1
                    in if runlen2 \<ge> outlen then (- 1, [SaslFree decoded])
                       else
                         (let password = take (c_strlen (drop runlen2 decoded))
                                              (drop runlen2 decoded) in
                          if nickname \<noteq> bytes_of user_nickname then (- 1, [SaslFree decoded])
                          else
                            (let zeroed = replicate outlen 0 @ drop outlen decoded;
                                 t = [SaslAuthenticate username password, SaslFree zeroed]
                             in if res \<noteq> 0 then (- 1, t @ [SaslNumeric 904])
                                else (0, t @ [SaslNumeric 903, SaslNumeric 900])))))))"

fun freed :: "sasl_event list \<Rightarrow> bytes list" where
  "freed [] = []"
| "freed (SaslFree b # es) = b # freed es"
| "freed (e # es) = freed es"

fun authenticated :: "sasl_event list \<Rightarrow> bool" where
  "authenticated [] = False"
| "authenticated (SaslAuthenticate u p # es) = True"
| "authenticated (e # es) = authenticated es"

section \<open>IRC channel engine (nets/net_irc.c)\<close>

text \<open>
  The mode enumerations are bit sets in a C \<open>int\<close>: \<open>enum channel_modes\<close>,
  \<open>enum channel_user_modes\<close> and \<open>enum user_modes\<close>, each value \<open>1 << n\<close>.
\<close>

abbreviation CHANNEL_MODE_LIMIT :: int where "CHANNEL_MODE_LIMIT \<equiv> 2"
abbreviation CHANNEL_MODE_MODERATED :: int where "CHANNEL_MODE_MODERATED \<equiv> 4"
abbreviation CHANNEL_MODE_NO_EXTERNAL :: int where "CHANNEL_MODE_NO_EXTERNAL \<equiv> 8"
abbreviation CHANNEL_MODE_REGISTERED_ONLY :: int where "CHANNEL_MODE_REGISTERED_ONLY \<equiv> 32"
abbreviation CHANNEL_MODE_TOPIC_PROTECTED :: int where "CHANNEL_MODE_TOPIC_PROTECTED \<equiv> 128"
abbreviation CHANNEL_MODE_REDUCED_MODERATION :: int where "CHANNEL_MODE_REDUCED_MODERATION \<equiv> 256"
abbreviation CHANNEL_MODE_TLS_ONLY :: int where "CHANNEL_MODE_TLS_ONLY \<equiv> 512"

abbreviation CHANNEL_USER_MODE_NONE :: int where "CHANNEL_USER_MODE_NONE \<equiv> 0"
abbreviation CHANNEL_USER_MODE_FOUNDER :: int where "CHANNEL_USER_MODE_FOUNDER \<equiv> 1"
abbreviation CHANNEL_USER_MODE_ADMIN :: int where "CHANNEL_USER_MODE_ADMIN \<equiv> 2"
abbreviation CHANNEL_USER_MODE_HALFOP :: int where "CHANNEL_USER_MODE_HALFOP \<equiv> 4"
abbreviation CHANNEL_USER_MODE_OP :: int where "CHANNEL_USER_MODE_OP \<equiv> 8"
abbreviation CHANNEL_USER_MODE_VOICE :: int where "CHANNEL_USER_MODE_VOICE \<equiv> 16"

abbreviation USER_MODE_SECURE :: int where "USER_MODE_SECURE \<equiv> 4"

abbreviation MAX_CHANNELS :: int where "MAX_CHANNELS \<equiv> 50"
abbreviation MAX_CHANNEL_LENGTH :: nat where "MAX_CHANNEL_LENGTH \<equiv> 50"

text \<open>
  \<open>struct irc_member\<close>, \<open>struct irc_channel\<close> and \<open>struct irc_user\<close>. A user is
  referred to by the address of its structure, a natural number. \<open>u_registered\<close> is
  what \<open>bbs_user_is_registered(user->node->user)\<close> returns and \<open>u_account\<close> is
  \<open>user->node->user\<close>, the id of the account the node is logged into (\<open>None\<close> for
  \<open>NULL\<close>). \<open>ch_fp\<close> says whether the channel has a log file.
\<close>

record irc_member =
  m_user :: nat
  m_modes :: int

record irc_channel =
  ch_name :: string
  ch_membercount :: nat
  ch_topic :: "string option"
  ch_members :: "irc_member list"
  ch_modes :: int
  ch_limit :: nat
  ch_fp :: bool

record irc_user =
  u_channelcount :: int
  u_username :: string
  u_nickname :: string
  u_modes :: int
  u_lastactive :: int
  u_lastping :: int
  u_lastpong :: int
  u_away :: bool
  u_registered :: bool
  u_account :: "nat option"

text \<open>
  The state of the module: the list \<open>users\<close> (addresses, in list order), the user
  structures by address, and the list \<open>channels\<close>.
\<close>

record irc_state =
  users :: "nat list"
  user_at :: "nat \<Rightarrow> irc_user"
  channels :: "irc_channel list"

text \<open>
  Lines written to clients are recorded by kind and parameters, not as formatted text:
  \<open>Send u l\<close> is a write of line \<open>l\<close> on the descriptor of user \<open>u\<close>. The trace of
  a routine also records its lock calls on the channel list and on the member lists,
  and, after each change of the channel list or of a member list, the channel list as it
  then is (\<open>Store\<close>).
\<close>

datatype quit_message = QuitText string | PingTimeout int

datatype irc_line =
    Numeric nat
  | JoinLine nat string
  | PartLine nat string
  | QuitLine nat string quit_message
  | KickLine nat string nat string
  | ModeGrant string int nat
  | TopicLines string
  | NamesLines string
  | PrivmsgLine nat bool string string
  | PingLine int
  | ErrorLine string

datatype lock = LChannels | LMembers string

datatype irc_event =
    Send nat irc_line
  | LogLine string irc_line
  | Warn string
  | WrLock lock
  | RdLock lock
  | Unlock lock
  | Store "irc_channel list"
  | Shutdown nat

datatype fault = NullDereference | FreedChannelInList

text \<open>\<open>authorized_atleast\<close>: the switch falls through from the level asked for.\<close>

definition privilege :: "int \<Rightarrow> int \<Rightarrow> int" where
  "privilege modes atleast =
     (let founder = modes AND CHANNEL_USER_MODE_FOUNDER;
          admin = (modes AND CHANNEL_USER_MODE_ADMIN) OR founder;
          op = (modes AND CHANNEL_USER_MODE_OP) OR admin;
          halfop = (modes AND CHANNEL_USER_MODE_HALFOP) OR op;
          voice = (modes AND CHANNEL_USER_MODE_VOICE) OR halfop
      in if atleast = CHANNEL_USER_MODE_VOICE then voice
         else if atleast = CHANNEL_USER_MODE_HALFOP then halfop
         else if atleast = CHANNEL_USER_MODE_OP then op
         else if atleast = CHANNEL_USER_MODE_ADMIN then admin
         else if atleast = CHANNEL_USER_MODE_FOUNDER then founder
         else 0)"

text \<open>
  \<open>authorized_atleast\<close> locks and reads through its argument: on the \<open>NULL\<close> member
  the process faults.
\<close>

definition authorized_atleast :: "irc_member option \<Rightarrow> int \<Rightarrow> fault + int" where
  "authorized_atleast member atleast =
     (case member of
        None \<Rightarrow> Inl NullDereference
      | Some m \<Rightarrow> Inr (privilege (m_modes m) atleast))"

text \<open>The list traversals that look for a channel by name, a member by user, a user by username.\<close>

fun find_channel :: "string \<Rightarrow> irc_channel list \<Rightarrow> nat option" where
  "find_channel name [] = None"
| "find_channel name (c # cs) =
     (if ch_name c = name then Some 0 else map_option Suc (find_channel name cs))"

fun find_member :: "nat \<Rightarrow> irc_member list \<Rightarrow> irc_member option" where
  "find_member user [] = None"
| "find_member user (m # ms) = (if m_user m = user then Some m else find_member user ms)"

fun get_user :: "irc_state \<Rightarrow> nat list \<Rightarrow> string \<Rightarrow> nat option" where
  "get_user st [] username = None"
| "get_user st (u # us) username =
     (if u_username (user_at st u) = username then Some u else get_user st us username)"

text \<open>\<open>RWLIST_REMOVE_CURRENT\<close> at the first member of the user, and \<open>remove_channel\<close>.\<close>

fun remove_member :: "nat \<Rightarrow> irc_member list \<Rightarrow> irc_member list" where
  "remove_member user [] = []"
| "remove_member user (m # ms) = (if m_user m = user then ms else m # remove_member user ms)"

definition remove_channel :: "nat \<Rightarrow> irc_channel list \<Rightarrow> irc_channel list" where
  "remove_channel i cs = take i cs @ drop (Suc i) cs"

definition IS_CHANNEL_NAME :: "string \<Rightarrow> bool" where
  "IS_CHANNEL_NAME s = (case s of [] \<Rightarrow> False | c # cs \<Rightarrow> c = CHR ''#'' \<or> c = CHR ''&'')"

definition VALID_CHANNEL_NAME :: "string \<Rightarrow> bool" where
  "VALID_CHANNEL_NAME s = (s \<noteq> [] \<and> IS_CHANNEL_NAME s)"

definition isalnum :: "char \<Rightarrow> bool" where
  "isalnum c = (let n = (of_char c :: nat) in
     (48 \<le> n \<and> n \<le> 57) \<or> (65 \<le> n \<and> n \<le> 90) \<or> (97 \<le> n \<and> n \<le> 122))"

fun valid_channame_from :: "bool \<Rightarrow> string \<Rightarrow> bool" where
  "valid_channame_from i [] = True"
| "valid_channame_from i (c # cs) =
     (if \<not> isalnum c \<and> \<not> (\<not> i \<and> (c = CHR ''#'' \<or> c = CHR ''&'')) \<and> c \<noteq> CHR ''-''
      then False else valid_channame_from True cs)"

definition valid_channame :: "string \<Rightarrow> bool" where
  "valid_channame s = valid_channame_from False s"

definition user_setactive :: "int \<Rightarrow> irc_state \<Rightarrow> nat \<Rightarrow> irc_state" where
  "user_setactive now st user =
     st\<lparr> user_at := (user_at st)(user := (user_at st user)\<lparr> u_lastactive := now \<rparr>) \<rparr>"

text \<open>
  \<open>__channel_broadcast\<close> (the formatting by \<open>vasprintf\<close> is taken to succeed): the
  line goes to every member but the excluded user and those below \<open>minmode\<close>, in list
  order, and once to the log file.
\<close>

definition channel_broadcast ::
  "bool \<Rightarrow> irc_channel \<Rightarrow> nat option \<Rightarrow> int \<Rightarrow> irc_line \<Rightarrow> irc_event list" where
  "channel_broadcast lck channel user minmode line =
     (let recipients =
            filter (\<lambda>m. \<not> (user = Some (m_user m))
                        \<and> \<not> (minmode \<noteq> 0 \<and> privilege (m_modes m) minmode = 0))
              (ch_members channel)
      in (if lck then [RdLock (LMembers (ch_name channel))] else [])
         @ map (\<lambda>m. Send (m_user m) line) recipients
         @ (if lck then [Unlock (LMembers (ch_name channel))] else [])
         @ (if ch_fp channel then [LogLine (ch_name channel) line] else [])
         @ (if recipients = [] \<and> user = None
            then [Warn ''Message was broadcast to 0 users''] else []))"

text \<open>
  \<open>privmsg\<close>. \<open>now\<close> is \<open>time(NULL)\<close>; the message is \<open>None\<close> for \<open>NULL\<close>, which
  \<open>strlen_zero\<close> treats like the empty string.
\<close>

definition privmsg ::
  "int \<Rightarrow> irc_state \<Rightarrow> nat \<Rightarrow> string \<Rightarrow> bool \<Rightarrow> string option
     \<Rightarrow> fault + (int \<times> irc_state \<times> irc_event list)" where
  "privmsg now st0 user channame notice message =
     (let st = user_setactive now st0 user in
      case message of
        None \<Rightarrow> Inr (- 1, st, [Send user (Numeric 412)])
      | Some text \<Rightarrow>
          if text = [] then Inr (- 1, st, [Send user (Numeric 412)])
          else if length text \<ge> 510 then Inr (- 1, st, [Send user (Numeric 416)])
          else if \<not> IS_CHANNEL_NAME channame then
            (case get_user st (users st) channame of
               None \<Rightarrow> Inr (- 1, st, [Send user (Numeric 401)])
             | Some user2 \<Rightarrow>
                 Inr (0, st,
                      [Send user2 (PrivmsgLine user notice (u_nickname (user_at st user2)) text)]
                      @ (if u_away (user_at st user2) then [Send user (Numeric 301)] else [])))
          else
            (case find_channel channame (channels st) of
               None \<Rightarrow> Inr (- 1, st, [RdLock LChannels, Unlock LChannels, Send user (Numeric 403)])
             | Some ci \<Rightarrow>
                 (let channel = channels st ! ci;
                      m = find_member user (ch_members channel);
                      locks = [RdLock LChannels, RdLock (LMembers (ch_name channel)),
                               Unlock (LMembers (ch_name channel)), Unlock LChannels];
                      deliver = (\<lambda>minmode.
                        Inr (0, st, locks @ channel_broadcast True channel (Some user) minmode
                                       (PrivmsgLine user notice (ch_name channel) text)))
                  in if m = None \<and> ch_modes channel AND CHANNEL_MODE_NO_EXTERNAL \<noteq> 0 then
                       Inr (- 1, st, locks @ [Send user (Numeric 442)])
                     else if ch_modes channel AND CHANNEL_MODE_MODERATED \<noteq> 0 then
                       (case authorized_atleast m CHANNEL_USER_MODE_VOICE of
                          Inl f \<Rightarrow> Inl f
                        | Inr auth \<Rightarrow>
                            if auth = 0 then
                              (if ch_modes channel AND CHANNEL_MODE_REDUCED_MODERATION \<noteq> 0
                               then deliver CHANNEL_USER_MODE_HALFOP
                               else Inr (- 1, st, locks @ [Send user (Numeric 489)]))
                            else deliver CHANNEL_USER_MODE_NONE)
                     else deliver CHANNEL_USER_MODE_NONE)))"

text \<open>Who is sent a line of the trace.\<close>

fun recipients_of :: "irc_line \<Rightarrow> irc_event list \<Rightarrow> nat list" where
  "recipients_of l [] = []"
| "recipients_of l (Send u l' # es) = (if l' = l then u # recipients_of l es else recipients_of l es)"
| "recipients_of l (e # es) = recipients_of l es"

text \<open>
  \<open>join_channel\<close>. The host decides whether the two allocations succeed and whether
  the new channel gets a log file (\<open>log_channels\<close> is set and \<open>fopen\<close> succeeds).
  When the member cannot be allocated for a channel just created, the channel is freed
  while it is in the list: the run ends there.
\<close>

record join_io =
  alloc_channel :: bool
  alloc_member :: bool
  log_opened :: bool

definition new_channel :: "string \<Rightarrow> bool \<Rightarrow> bool \<Rightarrow> irc_channel" where
  "new_channel name registered logged =
     \<lparr> ch_name = name, ch_membercount = 0, ch_topic = None, ch_members = [],
       ch_modes = (CHANNEL_MODE_NO_EXTERNAL OR CHANNEL_MODE_TOPIC_PROTECTED)
                  OR (if registered then CHANNEL_MODE_REGISTERED_ONLY else 0),
       ch_limit = 0, ch_fp = logged \<rparr>"

definition join_channel ::
  "join_io \<Rightarrow> int \<Rightarrow> irc_state \<Rightarrow> nat \<Rightarrow> string
     \<Rightarrow> fault + (int \<times> irc_state \<times> irc_event list)" where
  "join_channel io now st user name =
     (let u = user_at st user in
      if \<not> VALID_CHANNEL_NAME name \<or> length name > MAX_CHANNEL_LENGTH \<or> \<not> valid_channame name
      then Inr (0, st, [Send user (Numeric 479)])
      else if u_channelcount u > MAX_CHANNELS then Inr (0, st, [Send user (Numeric 405)])
      else
        (let found = find_channel name (channels st);
             newchan = (found = None)
         in if newchan \<and> \<not> alloc_channel io then Inr (- 1, st, [WrLock LChannels, Unlock LChannels])
            else
              (let cs = (if newchan
                         then new_channel name (u_registered u) (log_opened io) # channels st
                         else channels st);
                   ci = (case found of None \<Rightarrow> 0 | Some i \<Rightarrow> i);
                   channel = cs ! ci;
                   t0 = [WrLock LChannels] @ (if newchan then [Store cs] else [])
               in if \<not> newchan \<and> ch_modes channel AND CHANNEL_MODE_TLS_ONLY \<noteq> 0
                     \<and> u_modes u AND USER_MODE_SECURE = 0 then
                    Inr (- 1, st, t0 @ [Unlock LChannels, Send user (Numeric 477)])
                  else if \<not> newchan \<and> ch_modes channel AND CHANNEL_MODE_REGISTERED_ONLY \<noteq> 0
                     \<and> \<not> u_registered u then
                    Inr (- 1, st, t0 @ [Unlock LChannels, Send user (Numeric 477)])
                  else if \<not> newchan \<and> ch_modes channel AND CHANNEL_MODE_LIMIT \<noteq> 0
                     \<and> ch_limit channel \<noteq> 0 \<and> ch_membercount channel \<ge> ch_limit channel then
                    Inr (- 1, st, t0 @ [Unlock LChannels, Send user (Numeric 471)])
                  else if find_member user (ch_members channel) \<noteq> None then
                    Inr (- 1, st, t0 @ [WrLock (LMembers name), Send user (Numeric 714),
                                        Unlock (LMembers name), Unlock LChannels])
                  else if \<not> alloc_member io then
                    (if newchan then Inl FreedChannelInList
                     else Inr (- 1, st, t0 @ [WrLock (LMembers name), Unlock (LMembers name),
                                              Unlock LChannels]))
                  else if newchan \<and> u_account u = None then Inl NullDereference
                  else
                    (let modes = (if newchan
                                  then CHANNEL_USER_MODE_OP
                                       OR (if u_account u = Some 1 then CHANNEL_USER_MODE_FOUNDER else 0)
                                  else CHANNEL_USER_MODE_NONE);
                         member = \<lparr> m_user = user, m_modes = modes \<rparr>;
                         channel' = channel\<lparr> ch_members := member # ch_members channel,
                                             ch_membercount := u32 (ch_membercount channel + 1) \<rparr>;
                         cs' = cs[ci := channel'];
                         st' = user_setactive now
                                 (st\<lparr> channels := cs',
                                     user_at := (user_at st)
                                       (user := u\<lparr> u_channelcount := u_channelcount u + 1 \<rparr>) \<rparr>)
                                 user
                     in Inr (0, st',
                             t0 @ [WrLock (LMembers name), Store cs', Unlock (LMembers name),
                                   Unlock LChannels]
                             @ channel_broadcast True channel' None 0 (JoinLine user name)
                             @ (if ch_topic channel' \<noteq> None then [Send user (TopicLines name)] else [])
                             @ [RdLock (LMembers name), Unlock (LMembers name),
                                Send user (NamesLines name)]
                             @ (if modes \<noteq> 0
                                then channel_broadcast True channel' None 0 (ModeGrant name modes user)
                                else []))))))"

text \<open>
  The member count is an \<open>unsigned int\<close>: \<open>membercount -= 1\<close> wraps below zero.
\<close>

definition decrement :: "nat \<Rightarrow> nat" where
  "decrement n = u32 (n + 4294967295)"

definition without_member :: "nat \<Rightarrow> irc_channel \<Rightarrow> irc_channel" where
  "without_member user channel =
     channel\<lparr> ch_members := remove_member user (ch_members channel),
              ch_membercount := decrement (ch_membercount channel) \<rparr>"

definition less_one_channel :: "irc_state \<Rightarrow> nat \<Rightarrow> irc_state" where
  "less_one_channel st user =
     st\<lparr> user_at := (user_at st)
            (user := (user_at st user)\<lparr> u_channelcount := u_channelcount (user_at st user) - 1 \<rparr>) \<rparr>"

text \<open>
  \<open>leave_channel\<close>: under the write lock of the channel list the member is removed,
  both counters are decremented, and a channel left without members is removed.
\<close>

definition leave_channel ::
  "int \<Rightarrow> irc_state \<Rightarrow> nat \<Rightarrow> string \<Rightarrow> int \<times> irc_state \<times> irc_event list" where
  "leave_channel now st0 user name =
     (let st = user_setactive now st0 user in
      case find_channel name (channels st) of
        None \<Rightarrow> (- 1, st, [WrLock LChannels, Unlock LChannels, Send user (Numeric 403)])
      | Some ci \<Rightarrow>
          (let channel = channels st ! ci;
               member = find_member user (ch_members channel);
               channel' = (if member \<noteq> None then without_member user channel else channel);
               cs1 = (channels st)[ci := channel'];
               st1 = (if member \<noteq> None then less_one_channel (st\<lparr> channels := cs1 \<rparr>) user else st);
               t1 = [WrLock LChannels, WrLock (LMembers name)]
                    @ (if member \<noteq> None
                       then channel_broadcast False channel None 0 (PartLine user name) @ [Store cs1]
                       else [])
                    @ [Unlock (LMembers name)];
               empty = (ch_members channel' = []);
               cs2 = (if empty then remove_channel ci cs1 else cs1);
               st2 = st1\<lparr> channels := cs2 \<rparr>;
               t2 = (if empty then [Store cs2] else []) @ [Unlock LChannels]
           in if member = None then (- 1, st2, t1 @ t2 @ [Send user (Numeric 442)])
              else (0, st2, t1 @ t2)))"

text \<open>
  \<open>drop_member_if_present\<close> and \<open>kick_member\<close> are given a channel of the list, here
  by its position. Neither takes the lock of the channel list: the caller of the first,
  \<open>leave_all_channels\<close>, holds it; the caller of the second, the \<open>KICK\<close> command, does
  not. \<open>kick_member\<close> leaves the channel count of the kicked user as it is.
\<close>

definition drop_member_if_present ::
  "irc_state \<Rightarrow> nat \<Rightarrow> nat \<Rightarrow> quit_message \<Rightarrow> irc_state \<times> irc_event list" where
  "drop_member_if_present st ci user message =
     (if ci \<ge> length (channels st) then (st, [])
      else
        (let channel = channels st ! ci;
             name = ch_name channel;
             member = find_member user (ch_members channel);
             channel' = (if member \<noteq> None then without_member user channel else channel);
             cs1 = (channels st)[ci := channel'];
             st1 = (if member \<noteq> None then less_one_channel (st\<lparr> channels := cs1 \<rparr>) user else st);
             t1 = [WrLock (LMembers name)]
                  @ (if member \<noteq> None
                     then [Store cs1]
                          @ channel_broadcast False channel' (Some user) 0 (QuitLine user name message)
                     else [])
                  @ [Unlock (LMembers name)];
             empty = (ch_members channel' = []);
             cs2 = (if empty then remove_channel ci cs1 else cs1)
         in (st1\<lparr> channels := cs2 \<rparr>, t1 @ (if empty then [Store cs2] else []))))"

definition kick_member ::
  "irc_state \<Rightarrow> nat \<Rightarrow> nat \<Rightarrow> nat \<Rightarrow> string \<Rightarrow> irc_state \<times> irc_event list" where
  "kick_member st ci kicker kicked message =
     (if ci \<ge> length (channels st) then (st, [])
      else
        (let channel = channels st ! ci;
             name = ch_name channel;
             member = find_member kicked (ch_members channel);
             channel' = (if member \<noteq> None then without_member kicked channel else channel);
             cs1 = (channels st)[ci := channel'];
             t1 = [WrLock (LMembers name)]
                  @ (if member \<noteq> None
                     then [Store cs1]
                          @ channel_broadcast False channel' None 0 (KickLine kicker name kicked message)
                     else [])
                  @ [Unlock (LMembers name)];
             empty = (ch_members channel' = []);
             cs2 = (if empty then remove_channel ci cs1 else cs1)
         in (st\<lparr> channels := cs2 \<rparr>, t1 @ (if empty then [Store cs2] else []))))"

text \<open>
  \<open>leave_all_channels\<close>: the safe traversal visits every channel of the list once,
  also when the current one is removed under it. \<open>n\<close> counts the channels still to
  visit and \<open>ci\<close> is the position of the current one.
\<close>

fun leave_all_from ::
  "nat \<Rightarrow> irc_state \<Rightarrow> nat \<Rightarrow> nat \<Rightarrow> quit_message \<Rightarrow> irc_state \<times> irc_event list" where
  "leave_all_from 0 st ci user message = (st, [])"
| "leave_all_from (Suc n) st ci user message =
     (let (st1, t1) = drop_member_if_present st ci user message;
          removed = (length (channels st1) < length (channels st));
          (st2, t2) = leave_all_from n st1 (if removed then ci else Suc ci) user message
      in (st2, t1 @ t2))"

definition leave_all_channels :: "irc_state \<Rightarrow> nat \<Rightarrow> quit_message \<Rightarrow> irc_state \<times> irc_event list" where
  "leave_all_channels st user message =
     (let (st', t) = leave_all_from (length (channels st)) st 0 user message
      in (st', [WrLock LChannels] @ t @ [Unlock LChannels]))"

text \<open>
  The \<open>KICK\<close> command of \<open>handle_client\<close>, once the channel and the user name are
  split off: the kicker must be at least half operator of the channel.
\<close>

definition handle_kick ::
  "irc_state \<Rightarrow> nat \<Rightarrow> string \<Rightarrow> string \<Rightarrow> string \<Rightarrow> irc_state \<times> irc_event list" where
  "handle_kick st user channame kickusername reason =
     (let member = (case find_channel channame (channels st) of
                      None \<Rightarrow> None
                    | Some ci \<Rightarrow> find_member user (ch_members (channels st ! ci)))
      in case member of
           None \<Rightarrow> (st, [Send user (Numeric 482)])
         | Some m \<Rightarrow>
             if privilege (m_modes m) CHANNEL_USER_MODE_HALFOP = 0
             then (st, [Send user (Numeric 482)])
             else
               (case find_channel channame (channels st) of
                  None \<Rightarrow> (st, [Send user (Numeric 403)])
                | Some ci \<Rightarrow>
                    (case get_user st (users st) kickusername of
                       None \<Rightarrow> (st, [Send user (Numeric 401)])
                     | Some target \<Rightarrow>
                         (case find_member target (ch_members (channels st ! ci)) of
                            None \<Rightarrow> (st, [Send user (Numeric 401)])
                          | Some km \<Rightarrow> kick_member st ci user (m_user km) reason))))"

text \<open>
  What another thread can see of the channel list while a routine runs: the list as it
  is whenever it changes while the routine does not hold the write lock of the list, and
  as it is when the routine releases that lock.
\<close>

fun visible :: "bool \<Rightarrow> irc_channel list \<Rightarrow> irc_event list \<Rightarrow> irc_channel list list" where
  "visible locked cur [] = []"
| "visible locked cur (WrLock LChannels # es) = visible True cur es"
| "visible locked cur (Unlock LChannels # es) = cur # visible False cur es"
| "visible locked cur (Store cs # es) =
     (if locked then visible locked cs es else cs # visible locked cs es)"
| "visible locked cur (e # es) = visible locked cur es"

definition has_empty_channel :: "irc_channel list \<Rightarrow> bool" where
  "has_empty_channel cs = (\<exists>c \<in> set cs. ch_members c = [])"

text \<open>
  The macro \<open>send_reply\<close> locks the mutex of the user, writes the line and unlocks.
  \<open>held\<close> are the users whose mutex the calling thread holds already. The mutexes are
  initialised with default attributes, so they are not recursive: locking one that the
  thread holds never returns (\<open>None\<close>).
\<close>

definition send_reply :: "nat list \<Rightarrow> nat \<Rightarrow> irc_line \<Rightarrow> irc_event list option" where
  "send_reply held user line = (if user \<in> set held then None else Some [Send user line])"

text \<open>
  One round of \<open>ping_thread\<close>, at time \<open>now\<close>; \<open>ping_time\<close> is the value of the
  macro \<open>PING_TIME\<close>. The body for one user runs with the mutex of that user held. On
  the expiry branch, \<open>leave_all_channels\<close> is followed by \<open>send_reply\<close> to the same
  user and by the \<open>shutdown\<close> of the socket of the node. When \<open>send_reply\<close> does
  not return the thread stays there and the round goes no further (\<open>Blocked\<close>).
\<close>

datatype ping_result = Proceeds irc_state "irc_event list" | Blocked irc_state "irc_event list"

definition ping_expired :: "int \<Rightarrow> int \<Rightarrow> irc_user \<Rightarrow> bool" where
  "ping_expired now ping_time u = (u_lastping u \<noteq> 0 \<and> u_lastpong u < now - ping_time)"

definition ping_user :: "int \<Rightarrow> int \<Rightarrow> irc_state \<Rightarrow> nat \<Rightarrow> ping_result" where
  "ping_user now ping_time st user =
     (if ping_expired now ping_time (user_at st user) then
        (let (st', t) = leave_all_channels st user (PingTimeout (now - u_lastpong (user_at st user)))
         in case send_reply [user] user (ErrorLine ''Connection timeout'') of
              None \<Rightarrow> Blocked st' t
            | Some t' \<Rightarrow> Proceeds st' (t @ t' @ [Shutdown user]))
      else
        Proceeds (st\<lparr> user_at := (user_at st)(user := (user_at st user)\<lparr> u_lastping := now \<rparr>) \<rparr>)
               [Send user (PingLine now)])"

fun ping_users :: "int \<Rightarrow> int \<Rightarrow> irc_state \<Rightarrow> nat list \<Rightarrow> ping_result" where
  "ping_users now ping_time st [] = Proceeds st []"
| "ping_users now ping_time st (user # rest) =
     (case ping_user now ping_time st user of
        Blocked st' t \<Rightarrow> Blocked st' t
      | Proceeds st' t \<Rightarrow>
          (case ping_users now ping_time st' rest of
             Blocked st'' t' \<Rightarrow> Blocked st'' (t @ t')
           | Proceeds st'' t' \<Rightarrow> Proceeds st'' (t @ t')))"

definition ping_round :: "int \<Rightarrow> int \<Rightarrow> irc_state \<Rightarrow> ping_result" where
  "ping_round now ping_time st = ping_users now ping_time st (users st)"

fun blocked :: "ping_result \<Rightarrow> bool" where
  "blocked (Blocked st t) = True"
| "blocked (Proceeds st t) = False"

fun ping_state :: "ping_result \<Rightarrow> irc_state" where
  "ping_state (Blocked st t) = st"
| "ping_state (Proceeds st t) = st"

fun ping_trace :: "ping_result \<Rightarrow> irc_event list" where
  "ping_trace (Blocked st t) = t"
| "ping_trace (Proceeds st t) = t"

text \<open>The users whose socket is shut down in a trace.\<close>

fun shutdowns :: "irc_event list \<Rightarrow> nat list" where
  "shutdowns [] = []"
| "shutdowns (Shutdown u # es) = u # shutdowns es"
| "shutdowns (e # es) = shutdowns es"

text \<open>The calls that change memberships, and a run of them.\<close>

datatype irc_call =
    Join join_io int nat string
  | Part int nat string
  | Quit nat quit_message
  | Kick nat nat nat string
  | KickCommand nat string string string

fun irc_step :: "irc_state \<Rightarrow> irc_call \<Rightarrow> fault + irc_state" where
  "irc_step st (Join io now user name) =
     (case join_channel io now st user name of
        Inl f \<Rightarrow> Inl f
      | Inr (res, st', t) \<Rightarrow> Inr st')"
| "irc_step st (Part now user name) = Inr (fst (snd (leave_channel now st user name)))"
| "irc_step st (Quit user message) = Inr (fst (leave_all_channels st user message))"
| "irc_step st (Kick ci kicker kicked message) = Inr (fst (kick_member st ci kicker kicked message))"
| "irc_step st (KickCommand user channame kickusername reason) =
     Inr (fst (handle_kick st user channame kickusername reason))"

fun irc_run :: "irc_state \<Rightarrow> irc_call list \<Rightarrow> fault + irc_state" where
  "irc_run st [] = Inr st"
| "irc_run st (c # cs) =
     (case irc_step st c of Inl f \<Rightarrow> Inl f | Inr st' \<Rightarrow> irc_run st' cs)"

text \<open>
  The number of channels a user is in, and the state before any channel exists: no user
  has joined anything, whatever else the user structures hold.
\<close>

definition is_member :: "nat \<Rightarrow> irc_channel \<Rightarrow> bool" where
  "is_member user c = (user \<in> m_user ` set (ch_members c))"

definition channels_of :: "irc_state \<Rightarrow> nat \<Rightarrow> nat" where
  "channels_of st user = length (filter (is_member user) (channels st))"

definition no_channels :: "irc_state \<Rightarrow> bool" where
  "no_channels st = (channels st = [] \<and> (\<forall>u. u_channelcount (user_at st u) = 0))"

text \<open>
  What holds between calls once the run started without channels: no user is twice in
  the member list of a channel, and the channel count of a user is at least the number
  of channels the user is in and at most 51, far from the ends of \<open>int\<close>.
\<close>

definition irc_inv :: "irc_state \<Rightarrow> bool" where
  "irc_inv st \<longleftrightarrow>
     (\<forall>c \<in> set (channels st). distinct (map m_user (ch_members c)))
     \<and> (\<forall>u. int (channels_of st u) \<le> u_channelcount (user_at st u)
             \<and> u_channelcount (user_at st u) \<le> 51)"

text \<open>By how much the channel count of a user exceeds the number of channels the user is in.\<close>

definition excess :: "irc_state \<Rightarrow> nat \<Rightarrow> int" where
  "excess st user = u_channelcount (user_at st user) - int (channels_of st user)"

text \<open>
  The channel list once a user is taken out of the channel at a position, as
  \<open>leave_channel\<close>, \<open>drop_member_if_present\<close> and \<open>kick_member\<close> all leave it.
\<close>

definition channels_without :: "nat \<Rightarrow> nat \<Rightarrow> irc_channel list \<Rightarrow> irc_channel list" where
  "channels_without ci user cs =
     (let channel = cs ! ci;
          channel' = (if find_member user (ch_members channel) \<noteq> None
                      then without_member user channel else channel);
          cs1 = cs[ci := channel']
      in if ch_members channel' = [] then remove_channel ci cs1 else cs1)"

definition count_in :: "nat \<Rightarrow> irc_channel list \<Rightarrow> nat" where
  "count_in user cs = length (filter (is_member user) cs)"

definition members_distinct :: "irc_channel list \<Rightarrow> bool" where
  "members_distinct cs = (\<forall>c \<in> set cs. distinct (map m_user (ch_members c)))"

section \<open>SFTP read (nets/net_ssh.c)\<close>

datatype sftp_type = TYPE_DIR | TYPE_FILE

text \<open>An entry of the handle table: its kind and, for a file, the bytes of the file.\<close>

record sftp_info =
  i_type :: sftp_type
  i_file :: "8 word list"

datatype sftp_status = SSH_FX_EOF | SSH_FX_INVALID_HANDLE | SSH_FX_BAD_MESSAGE | SSH_FX_ERRNO

datatype sftp_effect =
    ReplyStatus sftp_status string
  | ReplyData "8 word list"
  | Malloc nat
  | Fread nat
  | Free

text \<open>
  What the host answers to \<open>handle_read\<close>: whether \<open>malloc\<close> succeeds, the result of
  \<open>fseeko\<close>, and whether \<open>fread\<close> fails with an error (rather than at the end of
  the file).
\<close>

record read_io =
  alloc_succeeds :: bool
  fseeko_res :: int
  fread_error :: bool

text \<open>
  \<open>len\<close> is a \<open>uint32_t\<close>, compared with the \<open>int\<close> constant \<open>2 << 15\<close>.
\<close>

definition read_cap :: "32 word" where
  "read_cap = push_bit 15 2"

definition capped_len :: "32 word \<Rightarrow> 32 word" where
  "capped_len len = (if len > read_cap then read_cap else len)"

text \<open>
  \<open>handle_read\<close>, given the entry \<open>sftp_handle\<close> finds for the handle of the message
  (\<open>None\<close> for \<open>NULL\<close>), and the \<open>len\<close> and \<open>offset\<close> of the message. \<open>fread\<close>
  reads up to the requested count from the offset, and reads nothing at or past the end
  of the file, when \<open>feof\<close> holds.
\<close>

definition handle_read ::
  "read_io \<Rightarrow> sftp_info option \<Rightarrow> 32 word \<Rightarrow> 64 word \<Rightarrow> int \<times> sftp_effect list" where
  "handle_read io info msg_len msg_offset =
     (case info of
        None \<Rightarrow> (- 1, [ReplyStatus SSH_FX_INVALID_HANDLE ''Invalid handle''])
      | Some i \<Rightarrow>
          if i_type i \<noteq> TYPE_FILE then
            (- 1, [ReplyStatus SSH_FX_INVALID_HANDLE ''Invalid handle''])
          else if msg_len < 1 then
            (- 1, [ReplyStatus SSH_FX_BAD_MESSAGE ''Insufficient length''])
          else
            (let len = capped_len msg_len in
             if \<not> alloc_succeeds io then
               (- 1, [Malloc (unat len), ReplyStatus SSH_FX_BAD_MESSAGE ''Allocation failed''])
             else if fseeko_res io \<noteq> 0 then
               (- 1, [Malloc (unat len), ReplyStatus SSH_FX_BAD_MESSAGE ''Offset failed'', Free])
             else
               (let data = (if fread_error io then []
                            else take (unat len) (drop (unat msg_offset) (i_file i)))
                in (0, [Malloc (unat len), Fread (unat len)]
                       @ (if length data \<le> 0 then
                            (if \<not> fread_error io
                             then [ReplyStatus SSH_FX_EOF ''EOF'']
                             else [ReplyStatus SSH_FX_ERRNO ''''])
                          else [ReplyData data])
                       @ [Free]))))"

section \<open>Example states\<close>

text \<open>
  Five nodes are requested and the second and fourth are unlinked again; the registry
  that results holds the nodes 1, 3 and 5.
\<close>

definition s5_calls :: "registry_call list" where
  "s5_calls =
     [Request 5 ''SSH'' None True 100, Request 6 ''SSH'' None True 100,
      Request 7 ''SSH'' None True 100, Request 8 ''SSH'' None True 100,
      Request 9 ''SSH'' None True 100,
      Unlink (new_node 2 6 ''SSH'' None 100), Unlink (new_node 4 8 ''SSH'' None 100)]"

definition s5_registry :: registry where
  "s5_registry =
     \<lparr> nodes = [new_node 1 5 ''SSH'' None 100, new_node 3 7 ''SSH'' None 100,
                new_node 5 9 ''SSH'' None 100],
       shutting_down = 0, maxnodes = 64, lifetime_nodes = 5 \<rparr>"

text \<open>A registry with room for two nodes, after two requests.\<close>

definition full_calls :: "registry_call list" where
  "full_calls = [Request 5 ''Telnet'' None True 100, Request 6 ''Telnet'' None True 101]"

definition full_registry :: registry where
  "full_registry =
     \<lparr> nodes = [new_node 1 5 ''Telnet'' None 100, new_node 2 6 ''Telnet'' None 101],
       shutting_down = 0, maxnodes = 2, lifetime_nodes = 2 \<rparr>"

text \<open>
  A node on a pseudoterminal that shows a menu at 80 by 24 with unbuffered input and
  runs no child; the same node while it runs a child; calls that all succeed.
\<close>

definition menu_node :: bbs_node where
  "menu_node = (new_node 1 5 ''SSH'' None 100)
     \<lparr> n_amaster := 7, n_slavefd := 8, n_ptythread := 31, n_thread := 30,
       n_buffered := False, n_cols := 80, n_rows := 24, n_inmenu := True \<rparr>"

definition child_node :: bbs_node where
  "child_node = menu_node\<lparr> n_childpid := 4242, n_inmenu := False \<rparr>"

definition calls_succeed :: winsize_io where
  "calls_succeed = \<lparr> ioctl_res = 0, kill_res = 0, write_res = 1 \<rparr>"

text \<open>The same node in a menu with buffered input, and an \<open>ioctl\<close> that fails.\<close>

definition buffered_menu_node :: bbs_node where
  "buffered_menu_node = menu_node\<lparr> n_buffered := True \<rparr>"

definition ioctl_fails :: winsize_io where
  "ioctl_fails = \<lparr> ioctl_res = - 1, kill_res = 0, write_res = 1 \<rparr>"

text \<open>An open file of 50000 zero bytes, on a host whose calls succeed.\<close>

definition big_file :: sftp_info where
  "big_file = \<lparr> i_type = TYPE_FILE, i_file = replicate 50000 0 \<rparr>"

definition read_succeeds :: read_io where
  "read_succeeds = \<lparr> alloc_succeeds = True, fseeko_res = 0, fread_error = False \<rparr>"

text \<open>
  A login as alice whose calls all succeed but the password read, which ends on its
  timeout after the four bytes \<open>s3cr\<close> have arrived; and a login where the password
  is read but wrong.
\<close>

definition wrong_password :: attempt_io where
  "wrong_password =
     \<lparr> is_tdd = False, buffer_res = 0, banner_res = 0, guest_banner_res = 0, newline_res = 0,
       login_prompt_res = 0, username_res = 5, typed_username = ''alice'', register_res = 0,
       guest_name_res = 0, guest_email_res = 0, guest_location_res = 0, guest_auth_res = 0,
       echo_off_res = 0, password_prompt_res = 0, password_res = 6,
       password_stored = [115, 51, 99, 114, 101, 116, 0], auth_res = - 1, echo_on_res = 0 \<rparr>"

definition read_times_out :: attempt_io where
  "read_times_out = wrong_password\<lparr> password_res := 0, password_stored := [115, 51, 99, 114] \<rparr>"

definition guests_allowed :: login_config where
  "guests_allowed = \<lparr> allow_guest = True, guest_ask_info = True \<rparr>"

text \<open>
  Two users, alice at address 1 and bob at address 2, before any channel exists; then
  alice alone in the channel she created; and a moderated channel that accepts external
  messages, with alice as its operator and bob outside.
\<close>

definition blank_user :: irc_user where
  "blank_user =
     \<lparr> u_channelcount = 0, u_username = [], u_nickname = [], u_modes = 0, u_lastactive = 0,
       u_lastping = 0, u_lastpong = 0, u_away = False, u_registered = False, u_account = None \<rparr>"

definition alice :: irc_user where
  "alice = blank_user\<lparr> u_username := ''alice'', u_nickname := ''alice'',
                        u_registered := True, u_account := Some 2 \<rparr>"

definition bob :: irc_user where
  "bob = blank_user\<lparr> u_username := ''bob'', u_nickname := ''bob'',
                      u_registered := True, u_account := Some 3 \<rparr>"

definition lobby :: irc_state where
  "lobby = \<lparr> users = [1, 2], user_at = (\<lambda>a. blank_user)(1 := alice, 2 := bob), channels = [] \<rparr>"

definition allocations_succeed :: join_io where
  "allocations_succeed = \<lparr> alloc_channel = True, alloc_member = True, log_opened = False \<rparr>"

definition room :: "irc_member list \<Rightarrow> nat \<Rightarrow> int \<Rightarrow> irc_channel" where
  "room members n modes =
     \<lparr> ch_name = ''#room'', ch_membercount = n, ch_topic = None, ch_members = members,
       ch_modes = modes, ch_limit = 0, ch_fp = False \<rparr>"

definition operator_alice :: irc_member where
  "operator_alice = \<lparr> m_user = 1, m_modes = CHANNEL_USER_MODE_OP \<rparr>"

definition alice_alone :: irc_state where
  "alice_alone =
     \<lparr> users = [1, 2],
       user_at = (\<lambda>a. blank_user)
         (1 := alice\<lparr> u_channelcount := 1, u_lastactive := 100 \<rparr>, 2 := bob),
       channels = [room [operator_alice] 1 168] \<rparr>"

definition moderated_open :: irc_state where
  "moderated_open = alice_alone\<lparr> channels := [room [operator_alice] 1 CHANNEL_MODE_MODERATED] \<rparr>"

text \<open>
  Bob has joined alice in her channel; and the state after alice kicked him and he
  created a channel of his own.
\<close>

definition both_in_room :: irc_state where
  "both_in_room =
     \<lparr> users = [1, 2],
       user_at = (\<lambda>a. blank_user)
         (1 := alice\<lparr> u_channelcount := 1, u_lastactive := 100 \<rparr>,
          2 := bob\<lparr> u_channelcount := 1, u_lastactive := 101 \<rparr>),
       channels = [room [\<lparr> m_user = 2, m_modes = CHANNEL_USER_MODE_NONE \<rparr>, operator_alice] 2 168] \<rparr>"

definition bob_elsewhere :: irc_state where
  "bob_elsewhere =
     \<lparr> users = [1, 2],
       user_at = (\<lambda>a. blank_user)
         (1 := alice\<lparr> u_channelcount := 1, u_lastactive := 100 \<rparr>,
          2 := bob\<lparr> u_channelcount := 2, u_lastactive := 102 \<rparr>),
       channels = [(room [\<lparr> m_user = 2, m_modes = CHANNEL_USER_MODE_OP \<rparr>] 1 168)
                     \<lparr> ch_name := ''#other'' \<rparr>,
                   room [operator_alice] 1 168] \<rparr>"

text \<open>
  Alice and bob in the channel; alice was pinged at 1000 and last answered at 1100, bob
  answered his last ping at 999901.
\<close>

definition alice_timed_out :: irc_state where
  "alice_timed_out =
     both_in_room\<lparr> user_at := (user_at both_in_room)
       (1 := (user_at both_in_room 1)\<lparr> u_lastping := 1000, u_lastpong := 1100 \<rparr>,
        2 := (user_at both_in_room 2)\<lparr> u_lastping := 999900, u_lastpong := 999901 \<rparr>) \<rparr>"

section \<open>Properties of the node registry\<close>

lemma u32_id: "n < 4294967296 \<Longrightarrow> u32 n = n"
  by (simp add: u32_def)

lemma traverse_done:
  "count + length ns < 4294967296 \<Longrightarrow>
   request_traverse ns pos count k False prev = Inr (count + length ns, k, prev)"
  by (induction ns arbitrary: pos count) (simp_all add: u32_id)

lemma ids_from_Cons:
  "ids_from k (n # ns) \<Longrightarrow> ids_from (Suc (n_id n)) ns"
  by (auto simp: ids_from_def)

lemma traverse_looking:
  "ids_from k ns \<Longrightarrow> count + length ns < 4294967296 \<Longrightarrow> k + length ns \<le> 4294967296 \<Longrightarrow>
   k < 4294967296 \<Longrightarrow>
   \<exists>j \<le> length ns.
     request_traverse ns pos count k True prev =
       Inr (count + length ns, u32 (k + j), if j = 0 then prev else Some (pos + j - 1))
     \<and> map n_id (take j ns) = [k ..< k + j]
     \<and> (\<forall>n \<in> set (drop j ns). k + j < n_id n)"
proof (induction ns arbitrary: pos count k prev)
  case Nil
  then show ?case by (simp add: u32_id)
next
  case (Cons n ns)
  show ?case
  proof (cases "n_id n = k")
    case True
    show ?thesis
    proof (cases "ns = []")
      case True
      show ?thesis
        apply (rule exI[of _ "Suc 0"])
        using True \<open>n_id n = k\<close> Cons.prems(2) by (simp add: u32_id)
    next
      case False
      then have k: "Suc k < 4294967296" using Cons.prems(3) by (cases ns) auto
      have f: "ids_from (Suc k) ns" using Cons.prems(1) True ids_from_Cons by blast
      from Cons.IH[OF f, of "Suc count" "Suc pos" "Some pos"] Cons.prems(2,3) k
      obtain j where j: "j \<le> length ns"
        "request_traverse ns (Suc pos) (Suc count) (Suc k) True (Some pos) =
           Inr (Suc count + length ns, u32 (Suc k + j), if j = 0 then Some pos else Some (Suc pos + j - 1))"
        "map n_id (take j ns) = [Suc k ..< Suc k + j]"
        "\<forall>n \<in> set (drop j ns). Suc k + j < n_id n"
        by auto
      show ?thesis
        apply (rule exI[of _ "Suc j"])
        using j True k Cons.prems(2,3)
        by (auto simp: u32_id upt_conv_Cons)
    qed
  next
    case False
    then have gt: "k < n_id n" using Cons.prems(1) by (auto simp: ids_from_def)
    have all: "\<forall>x \<in> set (n # ns). k < n_id x"
      using Cons.prems(1) gt by (fastforce simp: ids_from_def)
    have k: "k < 4294967296" using Cons.prems(4) by simp
    show ?thesis
      apply (rule exI[of _ 0])
      using False gt all k Cons.prems(2) traverse_done[of "Suc count" ns "Suc pos" k prev]
      by (auto simp: u32_id)
  qed
qed

lemma ids_from_length_gen:
  "ids_from k ns \<Longrightarrow> \<forall>n \<in> set ns. n_id n \<le> m \<Longrightarrow> length ns \<le> Suc m - k"
proof (induction ns arbitrary: k)
  case Nil
  then show ?case by simp
next
  case (Cons n ns)
  have "length ns \<le> Suc m - Suc (n_id n)"
    using Cons.IH[OF ids_from_Cons[OF Cons.prems(1)]] Cons.prems(2) by simp
  moreover have "k \<le> n_id n" using Cons.prems(1) by (simp add: ids_from_def)
  moreover have "n_id n \<le> m" using Cons.prems(2) by simp
  ultimately show ?case by simp
qed

lemma reg_inv_length: "reg_inv r \<Longrightarrow> length (nodes r) \<le> maxnodes r"
  using ids_from_length_gen[of 1 "nodes r" "maxnodes r"] by (simp add: reg_inv_def)

lemma insert_node_pos:
  "insert_node (if j = 0 then None else Some (0 + j - 1)) node ns = take j ns @ node # drop j ns"
  by (cases j) (simp_all add: insert_node_def)

lemma request_Some:
  assumes inv: "reg_inv r"
    and req: "bbs_node_request r fd p ow a now = Inr (Some node, r')"
  shows "\<exists>j \<le> length (nodes r).
           node = new_node (Suc j) fd p ow now
         \<and> r' = r\<lparr> nodes := take j (nodes r) @ node # drop j (nodes r),
                    lifetime_nodes := lifetime_nodes r + 1 \<rparr>
         \<and> map n_id (take j (nodes r)) = [1 ..< Suc j]
         \<and> (\<forall>n \<in> set (drop j (nodes r)). Suc j < n_id n)
         \<and> length (nodes r) < maxnodes r \<and> 2 < fd \<and> shutting_down r = 0 \<and> a"
proof -
  have len: "length (nodes r) \<le> maxnodes r" using inv by (rule reg_inv_length)
  have m: "maxnodes r < 4294967296" using inv by (simp add: reg_inv_def)
  have idf: "ids_from 1 (nodes r)" using inv by (simp add: reg_inv_def)
  from traverse_looking[OF idf, of 0 0 None] len m
  obtain j where j: "j \<le> length (nodes r)"
    "request_traverse (nodes r) 0 0 1 True None =
       Inr (length (nodes r), u32 (Suc j), if j = 0 then None else Some (0 + j - 1))"
    "map n_id (take j (nodes r)) = [1 ..< Suc j]"
    "\<forall>n \<in> set (drop j (nodes r)). Suc j < n_id n"
    by auto
  have lt: "length (nodes r) < maxnodes r" and fd: "2 < fd" and sd: "shutting_down r = 0" and a: a
    using req j(2) by (auto simp: bbs_node_request_def Let_def split: if_splits)
  have sj: "u32 (Suc j) = Suc j" using j(1) lt m by (simp add: u32_id)
  show ?thesis
    apply (rule exI[of _ j])
    using req j sj lt fd sd a insert_node_pos[of j _ "nodes r"]
    by (auto simp: bbs_node_request_def Let_def)
qed

lemma request_None:
  "bbs_node_request r fd p ow a now = Inr (None, r') \<Longrightarrow> r' = r"
  by (auto simp: bbs_node_request_def Let_def split: if_splits sum.splits prod.splits)

lemma request_no_abort:
  assumes inv: "reg_inv r"
  shows "bbs_node_request r fd p ow a now \<noteq> Inl e"
proof -
  have len: "length (nodes r) \<le> maxnodes r" using inv by (rule reg_inv_length)
  have m: "maxnodes r < 4294967296" using inv by (simp add: reg_inv_def)
  have idf: "ids_from 1 (nodes r)" using inv by (simp add: reg_inv_def)
  from traverse_looking[OF idf, of 0 0 None] len m
  obtain x where "request_traverse (nodes r) 0 0 1 True None = Inr x" by auto
  then show ?thesis
    by (auto simp: bbs_node_request_def Let_def split: if_splits prod.splits)
qed


lemma ids_from_remove1: "ids_from k ns \<Longrightarrow> ids_from k (remove1 n ns)"
  unfolding ids_from_def
  by (induction ns) (auto dest: notin_set_remove1)

lemma remove_by_id_sub:
  "remove_by_id i ns = (found, ms) \<Longrightarrow> ids_from k ns \<Longrightarrow> ids_from k ms \<and> set ms \<subseteq> set ns"
  unfolding ids_from_def
  by (induction ns arbitrary: found ms) (fastforce split: if_splits prod.splits)+

lemma remove_by_mod_sub:
  "remove_by_mod m ns = (c, ms) \<Longrightarrow> ids_from k ns \<Longrightarrow> ids_from k ms \<and> set ms \<subseteq> set ns"
  unfolding ids_from_def
  by (induction ns arbitrary: c ms) (fastforce split: if_splits prod.splits)+

lemma reg_inv_initial: "m < 4294967296 \<Longrightarrow> reg_inv (initial_registry m)"
  by (simp add: reg_inv_def initial_registry_def ids_from_def)

lemma ids_from_insert:
  assumes "map n_id (take j ns) = [1 ..< Suc j]"
    and "\<forall>n \<in> set (drop j ns). Suc j < n_id n"
    and "ids_from 1 ns" and "n_id node = Suc j"
  shows "ids_from 1 (take j ns @ node # drop j ns)"
proof -
  have s: "sorted_wrt (<) (map n_id ns)" using assms(3) by (simp add: ids_from_def)
  have "sorted_wrt (<) (map n_id (take j ns @ drop j ns))" using s by simp
  then have s1: "sorted_wrt (<) (map n_id (take j ns))" and s2: "sorted_wrt (<) (map n_id (drop j ns))"
    unfolding map_append sorted_wrt_append by blast+
  have lo: "\<forall>x \<in> set (take j ns). n_id x < Suc j"
  proof
    fix x assume "x \<in> set (take j ns)"
    then have "n_id x \<in> set (map n_id (take j ns))" by simp
    then show "n_id x < Suc j" unfolding assms(1) by auto
  qed
  have ge: "\<forall>x \<in> set (take j ns). 1 \<le> n_id x"
    using assms(3) by (auto simp: ids_from_def dest: in_set_takeD)
  show ?thesis
    unfolding ids_from_def
    using s1 s2 lo ge assms(2,4)
    by (fastforce simp: sorted_wrt_append)
qed

lemma request_inv:
  assumes inv: "reg_inv r"
    and req: "bbs_node_request r fd p ow a now = Inr (res, r')"
  shows "reg_inv r'"
proof (cases res)
  case None
  then show ?thesis using request_None req inv by blast
next
  case (Some node)
  from request_Some[OF inv req[unfolded Some]]
  obtain j where j: "j \<le> length (nodes r)" "node = new_node (Suc j) fd p ow now"
    "r' = r\<lparr> nodes := take j (nodes r) @ node # drop j (nodes r),
              lifetime_nodes := lifetime_nodes r + 1 \<rparr>"
    "map n_id (take j (nodes r)) = [1 ..< Suc j]"
    "\<forall>n \<in> set (drop j (nodes r)). Suc j < n_id n"
    "length (nodes r) < maxnodes r"
    by blast
  have id: "n_id node = Suc j" using j(2) by (simp add: new_node_def)
  have idf: "ids_from 1 (nodes r)" using inv by (simp add: reg_inv_def)
  have a: "ids_from 1 (nodes r')"
    using ids_from_insert[OF j(4) j(5) idf id] j(3) by simp
  have b: "\<forall>n \<in> set (nodes r'). n_id n \<le> maxnodes r'"
    using inv j(1,3,6) id by (auto simp: reg_inv_def dest: in_set_takeD in_set_dropD)
  show ?thesis using a b inv j(3) by (simp add: reg_inv_def)
qed

lemma step_inv:
  assumes "reg_inv r" and "registry_step r c = Inr r'"
  shows "reg_inv r'"
proof (cases c)
  case (Request fd p ow a now)
  then show ?thesis using assms request_inv
    by (auto split: sum.splits prod.splits)
next
  case (Unlink node)
  then show ?thesis using assms ids_from_remove1[of 1 "nodes r" node]
    by (auto simp: reg_inv_def bbs_node_unlink_def list_remove_def dest: notin_set_remove1)
next
  case (ShutdownNode k)
  then show ?thesis using assms remove_by_id_sub[of k "nodes r" _ _ 1]
    by (auto simp: reg_inv_def bbs_node_shutdown_node_def split: prod.splits option.splits)
next
  case (ShutdownMod m)
  then show ?thesis using assms remove_by_mod_sub[of m "nodes r" _ _ 1]
    by (auto simp: reg_inv_def bbs_node_shutdown_mod_def split: prod.splits)
next
  case (ShutdownAll flag)
  then show ?thesis using assms
    by (auto simp: reg_inv_def bbs_node_shutdown_all_def ids_from_def)
qed

lemma step_no_abort: "reg_inv r \<Longrightarrow> registry_step r c \<noteq> Inl e"
  using request_no_abort by (cases c) (auto split: sum.splits)

lemma run_inv: "reg_inv r \<Longrightarrow> registry_run r cs = Inr r' \<Longrightarrow> reg_inv r'"
  by (induction cs arbitrary: r) (auto split: sum.splits dest: step_inv)

lemma run_no_abort: "reg_inv r \<Longrightarrow> registry_run r cs \<noteq> Inl e"
proof (induction cs arbitrary: r)
  case Nil
  then show ?case by simp
next
  case (Cons c cs)
  then show ?case
    using step_no_abort[of r c] step_inv[of r c]
    by (auto split: sum.splits)
qed


lemma step_maxnodes: "registry_step r c = Inr r' \<Longrightarrow> maxnodes r' = maxnodes r"
  by (cases c)
     (auto simp: bbs_node_request_def bbs_node_unlink_def list_remove_def
        bbs_node_shutdown_node_def bbs_node_shutdown_mod_def bbs_node_shutdown_all_def Let_def
        split: sum.splits prod.splits if_splits option.splits)

lemma run_maxnodes: "registry_run r cs = Inr r' \<Longrightarrow> maxnodes r' = maxnodes r"
  by (induction cs arbitrary: r) (auto split: sum.splits dest: step_maxnodes)

text \<open>
  Claim C1. After any run of registry calls from the empty registry (requests, whether
  they succeed or not, unlinks and the shutdown calls), a request that succeeds gives
  the new node the smallest positive id that no node of the list has, and the list,
  which was sorted by strictly increasing id, still is, with the new node in it.
\<close>

theorem request_assigns_smallest_unused_id:
  assumes "m < 4294967296"
    and "registry_run (initial_registry m) calls = Inr r"
    and "bbs_node_request r fd protname owner alloc_ok now = Inr (Some node, r')"
  shows "0 < n_id node \<and> n_id node \<notin> live_ids r
       \<and> (\<forall>k. 0 < k \<and> k < n_id node \<longrightarrow> k \<in> live_ids r)
       \<and> set (nodes r') = insert node (set (nodes r))
       \<and> sorted_wrt (<) (map n_id (nodes r)) \<and> sorted_wrt (<) (map n_id (nodes r'))"
proof -
  have inv: "reg_inv r" using run_inv[OF reg_inv_initial[OF assms(1)] assms(2)] .
  have inv': "reg_inv r'" using request_inv[OF inv assms(3)] .
  from request_Some[OF inv assms(3)]
  obtain j where j: "j \<le> length (nodes r)" "node = new_node (Suc j) fd protname owner now"
    "r' = r\<lparr> nodes := take j (nodes r) @ node # drop j (nodes r),
              lifetime_nodes := lifetime_nodes r + 1 \<rparr>"
    "map n_id (take j (nodes r)) = [1 ..< Suc j]"
    "\<forall>n \<in> set (drop j (nodes r)). Suc j < n_id n"
    by blast
  have id: "n_id node = Suc j" using j(2) by (simp add: new_node_def)
  have split: "set (nodes r) = set (take j (nodes r)) \<union> set (drop j (nodes r))"
    by (metis append_take_drop_id set_append)
  have low: "n_id ` set (take j (nodes r)) = {1 ..< Suc j}"
    using j(4) by (metis atLeastLessThan_upt set_map)
  have notin: "n_id node \<notin> live_ids r"
    unfolding live_ids_def split image_Un low id using j(5) by auto
  have below: "\<forall>k. 0 < k \<and> k < n_id node \<longrightarrow> k \<in> live_ids r"
    unfolding live_ids_def split image_Un low id by auto
  have mem: "set (nodes r') = insert node (set (nodes r))"
    using j(3) split by simp
  show ?thesis
    using id notin below mem inv inv' by (simp add: reg_inv_def ids_from_def)
qed

lemma s5_run: "registry_run (initial_registry 64) s5_calls = Inr s5_registry"
  by (simp add: s5_calls_def s5_registry_def initial_registry_def bbs_node_request_def
      bbs_node_unlink_def list_remove_def insert_node_def new_node_def u32_def Let_def)


lemma full_run: "registry_run (initial_registry 2) full_calls = Inr full_registry"
  by (simp add: full_calls_def full_registry_def initial_registry_def bbs_node_request_def
      insert_node_def new_node_def u32_def Let_def)

theorem request_assigns_smallest_unused_id_witness:
  "registry_run (initial_registry 64) s5_calls = Inr s5_registry
   \<and> bbs_node_request s5_registry 10 ''SSH'' None True 200 =
       Inr (Some (new_node 2 10 ''SSH'' None 200),
            s5_registry\<lparr> nodes := [new_node 1 5 ''SSH'' None 100, new_node 2 10 ''SSH'' None 200,
               new_node 3 7 ''SSH'' None 100, new_node 5 9 ''SSH'' None 100],
               lifetime_nodes := 6 \<rparr>)
   \<and> live_ids s5_registry = {1, 3, 5}
   \<and> n_id (new_node 2 10 ''SSH'' None 200) \<notin> live_ids s5_registry
   \<and> 1 \<in> live_ids s5_registry"
proof -
  have m: "(64::nat) < 4294967296" by simp
  have req: "bbs_node_request s5_registry 10 ''SSH'' None True 200 =
       Inr (Some (new_node 2 10 ''SSH'' None 200),
            s5_registry\<lparr> nodes := [new_node 1 5 ''SSH'' None 100, new_node 2 10 ''SSH'' None 200,
               new_node 3 7 ''SSH'' None 100, new_node 5 9 ''SSH'' None 100],
               lifetime_nodes := 6 \<rparr>)"
    by (simp add: s5_registry_def bbs_node_request_def insert_node_def new_node_def u32_def Let_def)
  have ids: "live_ids s5_registry = {1, 3, 5}"
    by (auto simp: live_ids_def s5_registry_def new_node_def)
  have two: "n_id (new_node 2 10 ''SSH'' None 200) = 2" by (simp add: new_node_def)
  note t = request_assigns_smallest_unused_id[OF m s5_run req]
  have a: "n_id (new_node 2 10 ''SSH'' None 200) \<notin> live_ids s5_registry" using t by blast
  have "0 < (1::nat) \<and> 1 < n_id (new_node 2 10 ''SSH'' None 200)" using two by simp
  then have b: "1 \<in> live_ids s5_registry" using t by blast
  show ?thesis using s5_run req ids a b by simp
qed

text \<open>
  Claim C2 as stated fails: a request that passes 0, 1 or 2 as the descriptor is
  refused although the registry is empty and nothing is shutting down.
\<close>

theorem request_refused_for_standard_descriptor:
  "length (nodes (initial_registry 64)) < maxnodes (initial_registry 64)
   \<and> shutting_down (initial_registry 64) = 0
   \<and> bbs_node_request (initial_registry 64) 2 ''Telnet'' None True 100
       = Inr (None, initial_registry 64)"
  by (simp add: initial_registry_def bbs_node_request_def)

text \<open>
  Claim C2, amended. In every state the registry reaches from the empty one: a request
  returns no node and leaves the registry as it was when the list already holds
  \<open>maxnodes\<close> nodes, when \<open>shutting_down\<close> is set (as it is after
  \<open>bbs_node_shutdown_all\<close> with a nonzero argument), when the descriptor is at most 2,
  or when the allocation fails; in every other case it returns a new active node and
  the list grows by exactly that node. The list never holds more than \<open>maxnodes\<close>
  nodes, and no call aborts on the assertion.
\<close>

theorem request_refused_or_node_allocated:
  assumes "m < 4294967296"
    and "registry_run (initial_registry m) calls = Inr r"
  shows "(maxnodes r \<le> length (nodes r) \<or> shutting_down r \<noteq> 0 \<or> fd \<le> 2 \<or> \<not> alloc_ok
            \<longrightarrow> bbs_node_request r fd protname owner alloc_ok now = Inr (None, r))
       \<and> (length (nodes r) < maxnodes r \<and> shutting_down r = 0 \<and> 2 < fd \<and> alloc_ok
            \<longrightarrow> (\<exists>node r'. bbs_node_request r fd protname owner alloc_ok now = Inr (Some node, r')
                   \<and> n_active node \<and> n_fd node = fd
                   \<and> set (nodes r') = insert node (set (nodes r))
                   \<and> length (nodes r') = Suc (length (nodes r))
                   \<and> length (nodes r') \<le> maxnodes r'))
       \<and> (flag \<noteq> 0 \<longrightarrow>
            bbs_node_request (snd (bbs_node_shutdown_all r flag)) fd protname owner alloc_ok now
              = Inr (None, snd (bbs_node_shutdown_all r flag)))
       \<and> length (nodes r) \<le> maxnodes r \<and> maxnodes r = m"
proof -
  have inv: "reg_inv r" using run_inv[OF reg_inv_initial[OF assms(1)] assms(2)] .
  have len: "length (nodes r) \<le> maxnodes r" using inv by (rule reg_inv_length)
  have mx: "maxnodes r < 4294967296" using inv by (simp add: reg_inv_def)
  have idf: "ids_from 1 (nodes r)" using inv by (simp add: reg_inv_def)
  from traverse_looking[OF idf, of 0 0 None] len mx
  obtain j where j: "j \<le> length (nodes r)"
    "request_traverse (nodes r) 0 0 1 True None =
       Inr (length (nodes r), u32 (Suc j), if j = 0 then None else Some (0 + j - 1))"
    by auto
  have refused: "maxnodes r \<le> length (nodes r) \<or> shutting_down r \<noteq> 0 \<or> fd \<le> 2 \<or> \<not> alloc_ok
            \<longrightarrow> bbs_node_request r fd protname owner alloc_ok now = Inr (None, r)"
    using j(2) by (auto simp: bbs_node_request_def)
  have given: "length (nodes r) < maxnodes r \<and> shutting_down r = 0 \<and> 2 < fd \<and> alloc_ok
            \<longrightarrow> (\<exists>node r'. bbs_node_request r fd protname owner alloc_ok now = Inr (Some node, r')
                   \<and> n_active node \<and> n_fd node = fd
                   \<and> set (nodes r') = insert node (set (nodes r))
                   \<and> length (nodes r') = Suc (length (nodes r))
                   \<and> length (nodes r') \<le> maxnodes r')"
  proof
    assume h: "length (nodes r) < maxnodes r \<and> shutting_down r = 0 \<and> 2 < fd \<and> alloc_ok"
    define node where "node = new_node (u32 (Suc j)) fd protname owner now"
    define r' where "r' = r\<lparr> nodes := take j (nodes r) @ node # drop j (nodes r),
                             lifetime_nodes := lifetime_nodes r + 1 \<rparr>"
    have req: "bbs_node_request r fd protname owner alloc_ok now = Inr (Some node, r')"
      using h j(2) insert_node_pos[of j node "nodes r"]
      by (simp add: bbs_node_request_def Let_def node_def r'_def)
    have split: "set (nodes r) = set (take j (nodes r)) \<union> set (drop j (nodes r))"
      by (metis append_take_drop_id set_append)
    have "n_active node \<and> n_fd node = fd" by (simp add: node_def new_node_def)
    moreover have "set (nodes r') = insert node (set (nodes r))"
      using split by (simp add: r'_def)
    moreover have "length (nodes r') = Suc (length (nodes r))"
      using j(1) by (simp add: r'_def)
    moreover have "length (nodes r') \<le> maxnodes r'"
      using h j(1) by (simp add: r'_def)
    ultimately show "\<exists>node r'. bbs_node_request r fd protname owner alloc_ok now = Inr (Some node, r')
                   \<and> n_active node \<and> n_fd node = fd
                   \<and> set (nodes r') = insert node (set (nodes r))
                   \<and> length (nodes r') = Suc (length (nodes r))
                   \<and> length (nodes r') \<le> maxnodes r'"
      using req by blast
  qed
  have flagged: "flag \<noteq> 0 \<longrightarrow>
            bbs_node_request (snd (bbs_node_shutdown_all r flag)) fd protname owner alloc_ok now
              = Inr (None, snd (bbs_node_shutdown_all r flag))"
    by (simp add: bbs_node_request_def bbs_node_shutdown_all_def)
  have same: "maxnodes r = m"
    using run_maxnodes[OF assms(2)] by (simp add: initial_registry_def)
  show ?thesis using refused given flagged len same by blast
qed

theorem request_refused_or_node_allocated_witness:
  "registry_run (initial_registry 2) full_calls = Inr full_registry
   \<and> maxnodes full_registry \<le> length (nodes full_registry)
   \<and> bbs_node_request full_registry 7 ''Telnet'' None True 102 = Inr (None, full_registry)
   \<and> registry_run (initial_registry 64) s5_calls = Inr s5_registry
   \<and> length (nodes s5_registry) < maxnodes s5_registry
   \<and> shutting_down s5_registry = 0
   \<and> (\<exists>node r'. bbs_node_request s5_registry 10 ''SSH'' None True 200 = Inr (Some node, r')
          \<and> n_active node \<and> length (nodes r') = 4)
   \<and> bbs_node_request (snd (bbs_node_shutdown_all s5_registry 1)) 10 ''SSH'' None True 200
       = Inr (None, snd (bbs_node_shutdown_all s5_registry 1))"
proof -
  have m2: "(2::nat) < 4294967296" and m64: "(64::nat) < 4294967296" by simp_all
  have full: "maxnodes full_registry \<le> length (nodes full_registry)"
    by (simp add: full_registry_def)
  have room: "length (nodes s5_registry) < maxnodes s5_registry"
    and up: "shutting_down s5_registry = 0" and len: "length (nodes s5_registry) = 3"
    by (simp_all add: s5_registry_def)
  note a = request_refused_or_node_allocated[OF m2 full_run,
      where fd = 7 and alloc_ok = True and protname = "''Telnet''" and owner = None
        and now = 102 and flag = 1]
  note b = request_refused_or_node_allocated[OF m64 s5_run,
      where fd = 10 and alloc_ok = True and protname = "''SSH''" and owner = None
        and now = 200 and flag = 1]
  have r1: "bbs_node_request full_registry 7 ''Telnet'' None True 102 = Inr (None, full_registry)"
    using a full by blast
  have r2: "\<exists>node r'. bbs_node_request s5_registry 10 ''SSH'' None True 200 = Inr (Some node, r')
          \<and> n_active node \<and> length (nodes r') = 4"
    using b room up len by auto
  have r3: "bbs_node_request (snd (bbs_node_shutdown_all s5_registry 1)) 10 ''SSH'' None True 200
       = Inr (None, snd (bbs_node_shutdown_all s5_registry 1))"
    using b by simp
  show ?thesis using full_run full r1 s5_run room up r2 r3 by blast
qed

section \<open>Properties of node shutdown and of the window-size update\<close>

lemma occurrences_append: "occurrences k (xs @ ys) = occurrences k xs + occurrences k ys"
  by (simp add: occurrences_def)

lemma winsize_res: "fst (bbs_node_update_winsize io node cols rows) = 0"
  by (simp add: bbs_node_update_winsize_def Let_def)

lemma winsize_node:
  "fst (snd (bbs_node_update_winsize io node cols rows)) =
     (if 0 \<le> rows \<and> 0 \<le> cols
      then node\<lparr> n_cols := nat cols, n_rows := nat rows \<rparr> else node)"
  by (simp add: bbs_node_update_winsize_def Let_def)

lemma winsize_actions:
  "filter is_action (snd (snd (bbs_node_update_winsize io node cols rows))) =
     (let node' = fst (snd (bbs_node_update_winsize io node cols rows)) in
      if n_amaster node = - 1 then []
      else if n_childpid node \<noteq> 0 then
        [Tiocswinsz (n_amaster node) (n_rows node' mod 65536) (n_cols node' mod 65536),
         Signal (n_childpid node) SIGWINCH]
      else if n_inmenu node \<and> \<not> n_buffered node
              \<and> (n_cols node' < n_cols node
                   \<or> (n_rows node' < n_rows node \<and> n_cols node < n_cols node'))
        then [WriteMenuRefresh (n_amaster node)]
      else [])"
  by (simp add: bbs_node_update_winsize_def Let_def)

lemma shutdown_inactive:
  "\<not> n_active node \<Longrightarrow>
   node_shutdown sd now node unique =
     (node, [LogError ''Attempt to shut down already inactive node''])"
  by (simp add: node_shutdown_def)

lemma shutdown_active_node:
  "n_active node \<Longrightarrow>
   fst (node_shutdown sd now node unique) =
     fst (shutdown_socket (fst (shutdown_pty (fst (shutdown_terminal
       (if n_user node \<noteq> None then fst (bbs_node_logout (node\<lparr> n_active := False \<rparr>))
        else node\<lparr> n_active := False \<rparr>))))))"
  by (simp add: node_shutdown_def Let_def split_beta)

lemma logout_active: "n_active (fst (bbs_node_logout node)) = n_active node"
  by (simp add: bbs_node_logout_def)

lemma terminal_active: "n_active (fst (shutdown_terminal node)) = n_active node"
  by (simp add: shutdown_terminal_def)

lemma pty_active: "n_active (fst (shutdown_pty node)) = n_active node"
  by (simp add: shutdown_pty_def Let_def split_beta)

lemma socket_active: "n_active (fst (shutdown_socket node)) = n_active node"
  by (simp add: shutdown_socket_def Let_def split_beta)

lemma shutdown_deactivates: "\<not> n_active (fst (node_shutdown sd now node unique))"
proof (cases "n_active node")
  case True
  show ?thesis
    unfolding shutdown_active_node[OF True] socket_active pty_active terminal_active
    by (simp add: logout_active)
next
  case False
  then show ?thesis by (simp add: node_shutdown_def)
qed

lemma occ_kill:
  "occurrences k (bbs_node_kill_child node) \<le> (if k = ChildKill then 1 else 0)"
  by (simp add: bbs_node_kill_child_def occurrences_def)

lemma occ_logout:
  "occurrences k (snd (bbs_node_logout node)) \<le> (if k = Logout then 1 else 0)"
  by (simp add: bbs_node_logout_def occurrences_def split: option.splits)

lemma occ_terminal:
  "occurrences k (snd (shutdown_terminal node)) \<le> (if k = TerminalRestore then 2 else 0)"
  by (simp add: shutdown_terminal_def occurrences_def)

lemma occ_pty:
  "occurrences k (snd (shutdown_pty node))
     \<le> (if k = DescriptorClose then 2 else if k = ThreadWait \<or> k = Notice then 1 else 0)"
  by (simp add: shutdown_pty_def occurrences_def bbs_socket_close_def Let_def split_beta)

lemma occ_socket:
  "occurrences k (snd (shutdown_socket node)) \<le> (if k = DescriptorClose then 1 else 0)"
  by (simp add: shutdown_socket_def occurrences_def bbs_socket_close_def Let_def split_beta)

lemma shutdown_effects_bound:
  "k \<in> {ChildKill, Logout, TerminalRestore, DescriptorClose} \<Longrightarrow>
   occurrences k (snd (node_shutdown sd now node unique))
     \<le> (if k = ChildKill then 1 else 0) + (if k = Logout then 1 else 0)
       + (if k = TerminalRestore then 2 else 0)
       + (if k = DescriptorClose then 2 else if k = ThreadWait \<or> k = Notice then 1 else 0)
       + (if k = DescriptorClose then 1 else 0)"
proof (cases "n_active node")
  assume k: "k \<in> {ChildKill, Logout, TerminalRestore, DescriptorClose}"
  case False
  then show ?thesis using k by (auto simp: node_shutdown_def occurrences_def)
next
  assume k: "k \<in> {ChildKill, Logout, TerminalRestore, DescriptorClose}"
  case True
  let ?n0 = "node\<lparr> n_active := False \<rparr>"
  let ?n1 = "if n_user node \<noteq> None then fst (bbs_node_logout ?n0) else ?n0"
  let ?n2 = "fst (shutdown_terminal ?n1)"
  let ?n3 = "fst (shutdown_pty ?n2)"
  let ?n4 = "fst (shutdown_socket ?n3)"
  let ?e1 = "if n_user node \<noteq> None then snd (bbs_node_logout ?n0) else []"
  let ?e5 = "if n_user node = None \<and> sd = 0 \<and> now < n_created ?n4 + 5
             then [ShortSessionEvent (n_id ?n4)] else []"
  let ?e6 = "if unique = 0 then (if n_skipjoin ?n4 then [] else [ThreadJoin (n_thread ?n4)]) else []"
  have eq: "snd (node_shutdown sd now node unique) =
      bbs_node_kill_child ?n0 @ ?e1 @ snd (shutdown_terminal ?n1) @ snd (shutdown_pty ?n2)
       @ snd (shutdown_socket ?n3) @ ?e5 @ ?e6"
    using True by (simp add: node_shutdown_def Let_def split_beta)
  have e1: "occurrences k ?e1 \<le> (if k = Logout then 1 else 0)"
    using occ_logout[of k ?n0] by (auto simp: occurrences_def split: if_splits)
  have e5: "occurrences k ?e5 = 0" using k by (auto simp: occurrences_def)
  have e6: "occurrences k ?e6 = 0" using k by (auto simp: occurrences_def)
  show ?thesis
    unfolding eq occurrences_append e5 e6
    using occ_kill[of k ?n0] e1 occ_terminal[of k ?n1] occ_pty[of k ?n2] occ_socket[of k ?n3]
    by linarith
qed

lemma shutdown_once_counts:
  "occurrences ChildKill (snd (node_shutdown sd now node unique)) \<le> 1
   \<and> occurrences Logout (snd (node_shutdown sd now node unique)) \<le> 1
   \<and> occurrences TerminalRestore (snd (node_shutdown sd now node unique)) \<le> 2
   \<and> occurrences DescriptorClose (snd (node_shutdown sd now node unique)) \<le> 3"
  using shutdown_effects_bound[of ChildKill sd now node unique]
    shutdown_effects_bound[of Logout sd now node unique]
    shutdown_effects_bound[of TerminalRestore sd now node unique]
    shutdown_effects_bound[of DescriptorClose sd now node unique]
  by simp

text \<open>
  Claim C5. \<open>node_shutdown\<close> tests \<open>active\<close> first and returns at once on an inactive
  node. So after one call, whatever its arguments, a second call changes nothing of the
  node and has no effect but the logged error: the effects of the two calls that are
  not log messages are those of the first call alone, among them at most one child
  kill, one logout, one terminal restore (its two writes) and one close for each of the
  three descriptors.
\<close>

theorem node_shutdown_idempotent:
  "node_shutdown sd2 now2 (fst (node_shutdown sd1 now1 node unique1)) unique2
     = (fst (node_shutdown sd1 now1 node unique1),
        [LogError ''Attempt to shut down already inactive node''])
   \<and> filter is_action
        (snd (node_shutdown sd1 now1 node unique1)
         @ snd (node_shutdown sd2 now2 (fst (node_shutdown sd1 now1 node unique1)) unique2))
     = filter is_action (snd (node_shutdown sd1 now1 node unique1))
   \<and> occurrences ChildKill
        (snd (node_shutdown sd1 now1 node unique1)
         @ snd (node_shutdown sd2 now2 (fst (node_shutdown sd1 now1 node unique1)) unique2)) \<le> 1
   \<and> occurrences Logout
        (snd (node_shutdown sd1 now1 node unique1)
         @ snd (node_shutdown sd2 now2 (fst (node_shutdown sd1 now1 node unique1)) unique2)) \<le> 1
   \<and> occurrences TerminalRestore
        (snd (node_shutdown sd1 now1 node unique1)
         @ snd (node_shutdown sd2 now2 (fst (node_shutdown sd1 now1 node unique1)) unique2)) \<le> 2
   \<and> occurrences DescriptorClose
        (snd (node_shutdown sd1 now1 node unique1)
         @ snd (node_shutdown sd2 now2 (fst (node_shutdown sd1 now1 node unique1)) unique2)) \<le> 3"
proof -
  let ?first = "node_shutdown sd1 now1 node unique1"
  have second: "node_shutdown sd2 now2 (fst ?first) unique2
      = (fst ?first, [LogError ''Attempt to shut down already inactive node''])"
    using shutdown_inactive[OF shutdown_deactivates] .
  have log: "occurrences k [LogError ''Attempt to shut down already inactive node'']
      = (if k = Logged then 1 else 0)" for k
    by (simp add: occurrences_def)
  show ?thesis
    unfolding second snd_conv occurrences_append log
    using shutdown_once_counts[of sd1 now1 node unique1] by simp
qed

text \<open>
  Claim C9 as stated fails: on a node with a pseudoterminal but no child, a resize
  performs no \<open>TIOCSWINSZ\<close> at all (here a menu that grows, so nothing is written
  either).
\<close>

theorem winsize_without_child_skips_tiocswinsz:
  "n_amaster menu_node \<noteq> - 1
   \<and> bbs_node_update_winsize calls_succeed menu_node 100 24
       = (0, menu_node\<lparr> n_cols := 100, n_rows := 24 \<rparr>, [])"
  by (simp add: bbs_node_update_winsize_def menu_node_def new_node_def Let_def)

lemma winsize_effects:
  "snd (snd (bbs_node_update_winsize io node cols rows)) =
     (let node' = fst (snd (bbs_node_update_winsize io node cols rows)) in
      if n_amaster node = - 1 then []
      else if n_childpid node \<noteq> 0 then
        [Tiocswinsz (n_amaster node) (n_rows node' mod 65536) (n_cols node' mod 65536)]
        @ (if ioctl_res io \<noteq> 0 then [LogError ''TIOCSWINSZ failed''] else [])
        @ [Signal (n_childpid node) SIGWINCH]
        @ (if kill_res io \<noteq> 0 then [LogError ''SIGWINCH failed''] else [])
      else if n_inmenu node
              \<and> (n_cols node' < n_cols node
                   \<or> (n_rows node' < n_rows node \<and> n_cols node < n_cols node')) then
        (if n_buffered node then [LogError ''In menu but input is buffered?'']
         else [WriteMenuRefresh (n_amaster node)]
              @ (if write_res io \<noteq> 1 then [LogError ''Screen refresh failed''] else []))
      else [])"
  by (auto simp: bbs_node_update_winsize_def Let_def)

text \<open>
  Claim C9, amended. A window-size update stores the new size when neither number is
  negative and returns 0. Without a pseudoterminal it does nothing more. With one, it
  performs \<open>TIOCSWINSZ\<close> on the master, followed by \<open>SIGWINCH\<close> to the child, only
  when the node runs a child; a failure of either is logged and changes nothing else.
  When there is no child, the node shows a menu and the columns shrank (or the rows
  shrank while the columns grew), it writes the one menu-refresh byte to the master if
  input is unbuffered, logging an error if the write fails, and only logs an error if
  input is buffered. In every other case it does nothing. These are all its effects, in
  this order.
\<close>

theorem update_winsize_effects:
  assumes "bbs_node_update_winsize io node cols rows = (res, node', effs)"
  shows "res = 0
       \<and> node' = (if 0 \<le> rows \<and> 0 \<le> cols
                   then node\<lparr> n_cols := nat cols, n_rows := nat rows \<rparr> else node)
       \<and> effs =
           (if n_amaster node = - 1 then []
            else if n_childpid node \<noteq> 0 then
              [Tiocswinsz (n_amaster node) (n_rows node' mod 65536) (n_cols node' mod 65536)]
              @ (if ioctl_res io \<noteq> 0 then [LogError ''TIOCSWINSZ failed''] else [])
              @ [Signal (n_childpid node) SIGWINCH]
              @ (if kill_res io \<noteq> 0 then [LogError ''SIGWINCH failed''] else [])
            else if n_inmenu node
                    \<and> (n_cols node' < n_cols node
                         \<or> (n_rows node' < n_rows node \<and> n_cols node < n_cols node')) then
              (if n_buffered node then [LogError ''In menu but input is buffered?'']
               else [WriteMenuRefresh (n_amaster node)]
                    @ (if write_res io \<noteq> 1 then [LogError ''Screen refresh failed''] else []))
            else [])
       \<and> filter is_action effs =
           (if n_amaster node = - 1 then []
            else if n_childpid node \<noteq> 0 then
              [Tiocswinsz (n_amaster node) (n_rows node' mod 65536) (n_cols node' mod 65536),
               Signal (n_childpid node) SIGWINCH]
            else if n_inmenu node \<and> \<not> n_buffered node
                    \<and> (n_cols node' < n_cols node
                         \<or> (n_rows node' < n_rows node \<and> n_cols node < n_cols node'))
              then [WriteMenuRefresh (n_amaster node)]
            else [])"
proof -
  have r: "res = fst (bbs_node_update_winsize io node cols rows)"
    and n: "node' = fst (snd (bbs_node_update_winsize io node cols rows))"
    and e: "effs = snd (snd (bbs_node_update_winsize io node cols rows))"
    using assms by simp_all
  have 1: "res = 0" unfolding r winsize_res by simp
  have 2: "node' = (if 0 \<le> rows \<and> 0 \<le> cols
                   then node\<lparr> n_cols := nat cols, n_rows := nat rows \<rparr> else node)"
    unfolding n winsize_node by simp
  have 3: "effs =
           (if n_amaster node = - 1 then []
            else if n_childpid node \<noteq> 0 then
              [Tiocswinsz (n_amaster node) (n_rows node' mod 65536) (n_cols node' mod 65536)]
              @ (if ioctl_res io \<noteq> 0 then [LogError ''TIOCSWINSZ failed''] else [])
              @ [Signal (n_childpid node) SIGWINCH]
              @ (if kill_res io \<noteq> 0 then [LogError ''SIGWINCH failed''] else [])
            else if n_inmenu node
                    \<and> (n_cols node' < n_cols node
                         \<or> (n_rows node' < n_rows node \<and> n_cols node < n_cols node')) then
              (if n_buffered node then [LogError ''In menu but input is buffered?'']
               else [WriteMenuRefresh (n_amaster node)]
                    @ (if write_res io \<noteq> 1 then [LogError ''Screen refresh failed''] else []))
            else [])"
    unfolding e winsize_effects unfolding n[symmetric] Let_def by simp
  have 4: "filter is_action effs =
           (if n_amaster node = - 1 then []
            else if n_childpid node \<noteq> 0 then
              [Tiocswinsz (n_amaster node) (n_rows node' mod 65536) (n_cols node' mod 65536),
               Signal (n_childpid node) SIGWINCH]
            else if n_inmenu node \<and> \<not> n_buffered node
                    \<and> (n_cols node' < n_cols node
                         \<or> (n_rows node' < n_rows node \<and> n_cols node < n_cols node'))
              then [WriteMenuRefresh (n_amaster node)]
            else [])"
    unfolding e winsize_actions unfolding n[symmetric] Let_def by simp
  show ?thesis using 1 2 3 4 by blast
qed

theorem update_winsize_effects_witness:
  "bbs_node_update_winsize calls_succeed menu_node 60 24
     = (0, menu_node\<lparr> n_cols := 60, n_rows := 24 \<rparr>, [WriteMenuRefresh 7])
   \<and> bbs_node_update_winsize ioctl_fails child_node 60 24
     = (0, child_node\<lparr> n_cols := 60, n_rows := 24 \<rparr>,
        [Tiocswinsz 7 24 60, LogError ''TIOCSWINSZ failed'', Signal 4242 SIGWINCH])
   \<and> bbs_node_update_winsize calls_succeed buffered_menu_node 60 24
     = (0, buffered_menu_node\<lparr> n_cols := 60, n_rows := 24 \<rparr>,
        [LogError ''In menu but input is buffered?''])
   \<and> filter is_action [LogError ''In menu but input is buffered?''] = []
   \<and> filter is_action [Tiocswinsz 7 24 60, LogError ''TIOCSWINSZ failed'', Signal 4242 SIGWINCH]
       = [Tiocswinsz 7 24 60, Signal 4242 SIGWINCH]"
proof -
  obtain res node' effs where
    a: "bbs_node_update_winsize calls_succeed menu_node 60 24 = (res, node', effs)"
    by (cases "bbs_node_update_winsize calls_succeed menu_node 60 24")
  obtain res2 node2 effs2 where
    b: "bbs_node_update_winsize ioctl_fails child_node 60 24 = (res2, node2, effs2)"
    by (cases "bbs_node_update_winsize ioctl_fails child_node 60 24")
  obtain res3 node3 effs3 where
    c: "bbs_node_update_winsize calls_succeed buffered_menu_node 60 24 = (res3, node3, effs3)"
    by (cases "bbs_node_update_winsize calls_succeed buffered_menu_node 60 24")
  have a': "(res, node', effs) = (0, menu_node\<lparr> n_cols := 60, n_rows := 24 \<rparr>, [WriteMenuRefresh 7])"
    using update_winsize_effects[OF a]
    by (simp add: menu_node_def new_node_def calls_succeed_def)
  have b': "(res2, node2, effs2) = (0, child_node\<lparr> n_cols := 60, n_rows := 24 \<rparr>,
        [Tiocswinsz 7 24 60, LogError ''TIOCSWINSZ failed'', Signal 4242 SIGWINCH])"
    using update_winsize_effects[OF b]
    by (simp add: child_node_def menu_node_def new_node_def ioctl_fails_def)
  have c': "(res3, node3, effs3) = (0, buffered_menu_node\<lparr> n_cols := 60, n_rows := 24 \<rparr>,
        [LogError ''In menu but input is buffered?''])"
    using update_winsize_effects[OF c]
    by (simp add: buffered_menu_node_def menu_node_def new_node_def calls_succeed_def)
  have d: "filter is_action effs3 = []"
    using update_winsize_effects[OF c]
    by (simp add: buffered_menu_node_def menu_node_def new_node_def)
  have f: "filter is_action effs2 = [Tiocswinsz 7 24 60, Signal 4242 SIGWINCH]"
    using update_winsize_effects[OF b]
    by (simp add: child_node_def menu_node_def new_node_def)
  show ?thesis using a b c a' b' c' d f by simp
qed

section \<open>Properties of login and SASL authentication\<close>

lemma stored_in_length: "length buf = password_size \<Longrightarrow> length (stored_in received buf) = password_size"
  by (auto simp: stored_in_def password_size_def)

lemma memzero_all: "length buf = n \<Longrightarrow> bbs_memzero buf n = replicate n 0"
  by (simp add: bbs_memzero_def)

text \<open>
  Once the password read has succeeded the buffer is cleared before the pass ends,
  whatever \<open>bbs_authenticate\<close> and the call that turns the echo back on return.
\<close>

lemma password_attempt_zeroes:
  assumes "length password = password_size" and "0 < password_res io"
    and "0 \<le> echo_off_res io" and "0 \<le> password_prompt_res io"
  shows "snd (password_attempt io password) = replicate password_size 0"
  using assms memzero_all[OF stored_in_length[OF assms(1)], of "password_stored io"]
  by (simp add: password_attempt_def Let_def)

lemma login_attempt_buffer:
  assumes "length password = password_size"
  shows "snd (login_attempt cfg io password) = password
       \<or> snd (login_attempt cfg io password) = replicate password_size 0
       \<or> (password_res io \<le> 0
          \<and> snd (login_attempt cfg io password) = stored_in (password_stored io) password)"
  using memzero_all[OF stored_in_length[OF assms], of "password_stored io"]
  by (simp add: login_attempt_def password_attempt_def Let_def)

lemma login_attempt_length:
  assumes "length password = password_size"
  shows "length (snd (login_attempt cfg io password)) = password_size"
  using login_attempt_buffer[OF assms, of cfg io] assms stored_in_length[OF assms]
  by auto

lemma login_loop_buffer:
  assumes "length password = password_size" and "\<forall>i. 0 < password_res (ios i)"
  shows "snd (login_loop cfg ios left attempts password) = password
       \<or> snd (login_loop cfg ios left attempts password) = replicate password_size 0"
  using assms(1)
proof (induction left arbitrary: attempts password)
  case 0
  then show ?case by simp
next
  case (Suc left)
  obtain out password' where step: "login_attempt cfg (ios attempts) password = (out, password')"
    by (cases "login_attempt cfg (ios attempts) password")
  have len: "length password' = password_size"
    using login_attempt_length[OF Suc.prems, of cfg "ios attempts"] step by simp
  have buf: "password' = password \<or> password' = replicate password_size 0"
    using login_attempt_buffer[OF Suc.prems, of cfg "ios attempts"] step spec[OF assms(2), of attempts]
    by auto
  show ?case
  proof (cases out)
    case (Return r)
    then show ?thesis using step buf by simp
  next
    case Break
    then show ?thesis using step buf by simp
  next
    case Continue
    then show ?thesis using step buf Suc.IH[OF len, of "Suc attempts"] by auto
  qed
qed

text \<open>
  When no password read fails, \<open>authenticate\<close> returns with the buffer either as it
  found it (no password was read) or cleared.
\<close>

lemma authenticate_clears_after_successful_reads:
  assumes "length password = password_size" and "\<forall>i. 0 < password_res (ios i)"
  shows "snd (authenticate cfg ios logged_in password) = password
       \<or> snd (authenticate cfg ios logged_in password) = replicate password_size 0"
  using login_loop_buffer[OF assms, of cfg MAX_AUTH_ATTEMPTS 0]
  by (auto simp: authenticate_def split: prod.splits loop_exit.splits)

text \<open>
  The SASL exchange: once the nickname of the blob has matched, \<open>bbs_authenticate\<close>
  is called and the decoded buffer holds zero bytes over its whole length when it is
  freed, whether the authentication succeeds or fails.
\<close>

lemma sasl_buffer_zeroed_when_freed:
  assumes "authenticated (snd (do_sasl_auth decode res nick s))"
  shows "\<exists>decoded. decode (drop (length ''AUTHENTICATE '') s) = Some decoded
         \<and> freed (snd (do_sasl_auth decode res nick s)) = [replicate (length decoded) 0]"
  using assms
  by (auto simp: do_sasl_auth_def Let_def split: if_splits option.splits)

text \<open>
  Claim C6 (the password buffer is overwritten with zeros whatever way \<open>authenticate\<close>
  returns): the code misses one way out. When the password read fails (here on its
  timeout, after part of the password has arrived), \<open>NONPOS_RETURN\<close> leaves
  \<open>authenticate\<close> before \<open>bbs_memzero\<close> is reached, and the function returns \<open>-1\<close>
  with the received bytes still in the buffer: on the first attempt, and on a second
  attempt that follows a wrong password. After the wrong password itself the buffer is
  cleared.
\<close>

theorem authenticate_returns_with_password_bytes:
  "authenticate guests_allowed (\<lambda>i. read_times_out) False (replicate 64 0)
     = (Inr (- 1), [115, 51, 99, 114] @ replicate 60 0)
   \<and> authenticate guests_allowed ((\<lambda>i. read_times_out)(0 := wrong_password)) False (replicate 64 0)
     = (Inr (- 1), [115, 51, 99, 114] @ replicate 60 0)
   \<and> snd (login_attempt guests_allowed wrong_password (replicate 64 0)) = replicate 64 0"
  by (simp add: authenticate_def MAX_AUTH_ATTEMPTS_def numeral_3_eq_3 login_attempt_def
      password_attempt_def guest_attempt_def strcasecmp_equal_def tolower_def stored_in_def
      bbs_memzero_def password_size_def read_times_out_def wrong_password_def guests_allowed_def
      Let_def)

section \<open>Properties of the IRC channel engine\<close>

lemma alice_joins:
  "irc_run lobby [Join allocations_succeed 100 1 ''#room''] = Inr alice_alone"
  by (simp add: lobby_def alice_alone_def allocations_succeed_def join_channel_def
      VALID_CHANNEL_NAME_def IS_CHANNEL_NAME_def valid_channame_def isalnum_def new_channel_def
      user_setactive_def room_def operator_alice_def alice_def bob_def blank_user_def u32_def
      Let_def fun_eq_iff)

text \<open>
  Claim C3 does not hold of the code. \<open>kick_member\<close> never takes the write lock of
  the channel list, which \<open>remove_channel\<close> requires of its caller: when the operator
  who is alone in a channel kicks herself, the channel stands in the list without a
  member, for any reader to see, before it is removed. \<open>leave_channel\<close> on the same
  state shows the list only once the channel is gone.
\<close>

theorem kick_shows_channel_without_members:
  "visible False (channels alice_alone)
       (snd (handle_kick alice_alone 1 ''#room'' ''alice'' ''bye''))
     = [[room [] 0 168], []]
   \<and> has_empty_channel [room [] 0 168]
   \<and> visible False (channels alice_alone) (snd (snd (leave_channel 200 alice_alone 1 ''#room'')))
     = [[]]"
  by (simp add: alice_alone_def handle_kick_def kick_member_def leave_channel_def
      user_setactive_def less_one_channel_def without_member_def decrement_def u32_def
      remove_channel_def channel_broadcast_def privilege_def has_empty_channel_def
      room_def operator_alice_def alice_def bob_def blank_user_def Let_def)

text \<open>
  Claim C4 does not hold of the code. When the channel is moderated but accepts external
  messages and the sender is not a member, \<open>privmsg\<close> passes the \<open>NULL\<close> member to
  \<open>authorized_atleast\<close>, which dereferences it: the message is neither rejected with a
  numeric nor delivered.
\<close>

theorem privmsg_from_outside_to_moderated_channel_faults:
  "find_member 2 (ch_members (room [operator_alice] 1 CHANNEL_MODE_MODERATED)) = None
   \<and> privmsg 300 moderated_open 2 ''#room'' False (Some ''hi'') = Inl NullDereference"
  by (simp add: privmsg_def moderated_open_def alice_alone_def user_setactive_def
      IS_CHANNEL_NAME_def authorized_atleast_def room_def operator_alice_def Let_def)

lemma recipients_of_append:
  "recipients_of l (xs @ ys) = recipients_of l xs @ recipients_of l ys"
  by (induction l xs rule: recipients_of.induct) simp_all

lemma recipients_of_sends:
  "recipients_of l (map (\<lambda>m. Send (f m) l') ms) = (if l' = l then map f ms else [])"
  by (induction ms) auto

lemma recipients_of_broadcast:
  "recipients_of l (channel_broadcast lck c user minmode l') =
     (if l' = l
      then map m_user (filter (\<lambda>m. \<not> (user = Some (m_user m))
                                   \<and> \<not> (minmode \<noteq> 0 \<and> privilege (m_modes m) minmode = 0))
                         (ch_members c))
      else [])"
  by (simp add: channel_broadcast_def Let_def recipients_of_append recipients_of_sends)

lemma recipients_of_drop:
  "recipients_of (PingLine now) (snd (drop_member_if_present st ci user message)) = []"
  by (simp add: drop_member_if_present_def Let_def recipients_of_append recipients_of_broadcast)

lemma recipients_of_leave_all_from:
  "recipients_of (PingLine now) (snd (leave_all_from n st ci user message)) = []"
proof (induction n arbitrary: st ci)
  case 0
  then show ?case by simp
next
  case (Suc n)
  then show ?case
    using recipients_of_drop[of now st ci user message]
    by (simp add: split_beta Let_def recipients_of_append)
qed

lemma recipients_of_leave_all:
  "recipients_of (PingLine now) (snd (leave_all_channels st user message)) = []"
  using recipients_of_leave_all_from[of now "length (channels st)" st 0 user message]
  by (simp add: leave_all_channels_def split_beta recipients_of_append)

lemma ping_users_all_answer:
  "distinct us \<Longrightarrow> \<forall>u \<in> set us. \<not> ping_expired now pt (user_at st u) \<Longrightarrow>
   \<exists>st'. ping_users now pt st us = Proceeds st' (map (\<lambda>u. Send u (PingLine now)) us)
         \<and> channels st' = channels st \<and> users st' = users st
         \<and> (\<forall>v. user_at st' v =
               (if v \<in> set us then (user_at st v)\<lparr> u_lastping := now \<rparr> else user_at st v))"
proof (induction us arbitrary: st)
  case Nil
  then show ?case by simp
next
  case (Cons u us)
  let ?st1 = "st\<lparr> user_at := (user_at st)(u := (user_at st u)\<lparr> u_lastping := now \<rparr>) \<rparr>"
  have one: "ping_user now pt st u = Proceeds ?st1 [Send u (PingLine now)]"
    using Cons.prems(2) by (simp add: ping_user_def)
  have d: "distinct us" and nu: "u \<notin> set us" using Cons.prems(1) by simp_all
  have rest: "\<forall>v \<in> set us. \<not> ping_expired now pt (user_at ?st1 v)"
    using Cons.prems(2) nu by auto
  from Cons.IH[OF d rest]
  obtain st' where st': "ping_users now pt ?st1 us = Proceeds st' (map (\<lambda>u. Send u (PingLine now)) us)"
    "channels st' = channels ?st1" "users st' = users ?st1"
    "\<forall>v. user_at st' v =
        (if v \<in> set us then (user_at ?st1 v)\<lparr> u_lastping := now \<rparr> else user_at ?st1 v)"
    by blast
  show ?case
    apply (rule exI[of _ st'])
    using one st' nu by auto
qed

text \<open>
  A user that has not been pinged yet (\<open>lastping\<close> is 0) is pinged, however old its
  \<open>lastpong\<close> is: alice, connected at time 0, is pinged at time 1000000 with a ping
  interval of 120000.
\<close>

lemma user_never_pinged_is_pinged:
  "u_lastpong (user_at lobby 1) < 1000000 - 120000
   \<and> \<not> blocked (ping_user 1000000 120000 lobby 1)
   \<and> ping_trace (ping_user 1000000 120000 lobby 1) = [Send 1 (PingLine 1000000)]"
  by (simp add: ping_user_def ping_expired_def lobby_def alice_def blank_user_def)

text \<open>
  In a round where no user of the list has timed out, every user is pinged, in list
  order, gets \<open>lastping = now\<close>, and the channels stay as they are.
\<close>

lemma ping_round_without_timeout:
  assumes "distinct (users st)"
    and "\<forall>v \<in> set (users st). \<not> ping_expired now pt (user_at st v)"
  shows "\<not> blocked (ping_round now pt st)"
    and "ping_trace (ping_round now pt st) = map (\<lambda>v. Send v (PingLine now)) (users st)"
    and "channels (ping_state (ping_round now pt st)) = channels st"
    and "\<forall>v \<in> set (users st). user_at (ping_state (ping_round now pt st)) v
              = (user_at st v)\<lparr> u_lastping := now \<rparr>"
proof -
  from ping_users_all_answer[OF assms]
  obtain st' where st': "ping_users now pt st (users st)
        = Proceeds st' (map (\<lambda>u. Send u (PingLine now)) (users st))"
    "channels st' = channels st"
    "\<forall>v. user_at st' v =
        (if v \<in> set (users st) then (user_at st v)\<lparr> u_lastping := now \<rparr> else user_at st v)"
    by blast
  show "\<not> blocked (ping_round now pt st)"
    and "ping_trace (ping_round now pt st) = map (\<lambda>v. Send v (PingLine now)) (users st)"
    and "channels (ping_state (ping_round now pt st)) = channels st"
    and "\<forall>v \<in> set (users st). user_at (ping_state (ping_round now pt st)) v
              = (user_at st v)\<lparr> u_lastping := now \<rparr>"
    using st' by (simp_all add: ping_round_def)
qed

text \<open>
  No routine that \<open>leave_all_channels\<close> runs shuts a socket down, and the only lines it
  sends are the \<open>QUIT\<close> lines to the other members.
\<close>

lemma shutdowns_append: "shutdowns (xs @ ys) = shutdowns xs @ shutdowns ys"
  by (induction xs rule: shutdowns.induct) simp_all

lemma shutdowns_sends: "shutdowns (map (\<lambda>m. Send (f m) l) ms) = []"
  by (induction ms) simp_all

lemma shutdowns_broadcast: "shutdowns (channel_broadcast lck c user minmode l) = []"
  by (simp add: channel_broadcast_def Let_def shutdowns_append shutdowns_sends)

lemma shutdowns_drop: "shutdowns (snd (drop_member_if_present st ci user message)) = []"
  by (simp add: drop_member_if_present_def Let_def shutdowns_append shutdowns_broadcast)

lemma shutdowns_leave_all_from: "shutdowns (snd (leave_all_from n st ci user message)) = []"
proof (induction n arbitrary: st ci)
  case 0
  then show ?case by simp
next
  case (Suc n)
  then show ?case
    using shutdowns_drop[of st ci user message]
    by (simp add: split_beta Let_def shutdowns_append)
qed

lemma shutdowns_leave_all: "shutdowns (snd (leave_all_channels st user message)) = []"
  using shutdowns_leave_all_from[of "length (channels st)" st 0 user message]
  by (simp add: leave_all_channels_def split_beta shutdowns_append)

lemma error_line_drop:
  "recipients_of (ErrorLine e) (snd (drop_member_if_present st ci user message)) = []"
  by (simp add: drop_member_if_present_def Let_def recipients_of_append recipients_of_broadcast)

lemma error_line_leave_all_from:
  "recipients_of (ErrorLine e) (snd (leave_all_from n st ci user message)) = []"
proof (induction n arbitrary: st ci)
  case 0
  then show ?case by simp
next
  case (Suc n)
  then show ?case
    using error_line_drop[of e st ci user message]
    by (simp add: split_beta Let_def recipients_of_append)
qed

lemma error_line_leave_all:
  "recipients_of (ErrorLine e) (snd (leave_all_channels st user message)) = []"
  using error_line_leave_all_from[of e "length (channels st)" st 0 user message]
  by (simp add: leave_all_channels_def split_beta recipients_of_append)

text \<open>
  On the expiry branch the thread holds the mutex that \<open>send_reply\<close> locks: the user is
  taken out of its channels and the thread stays in \<open>send_reply\<close>.
\<close>

lemma ping_user_expired:
  "ping_expired now pt (user_at st u) \<Longrightarrow>
   ping_user now pt st u =
     Blocked (fst (leave_all_channels st u (PingTimeout (now - u_lastpong (user_at st u)))))
             (snd (leave_all_channels st u (PingTimeout (now - u_lastpong (user_at st u)))))"
  by (simp add: ping_user_def send_reply_def split_beta)

lemma ping_user_quiet:
  "shutdowns (ping_trace (ping_user now pt st u)) = []
   \<and> recipients_of (ErrorLine e) (ping_trace (ping_user now pt st u)) = []"
  using shutdowns_leave_all[of st u] error_line_leave_all[of e st u]
  by (simp add: ping_user_def send_reply_def split_beta)

lemma ping_users_quiet:
  "shutdowns (ping_trace (ping_users now pt st us)) = []
   \<and> recipients_of (ErrorLine e) (ping_trace (ping_users now pt st us)) = []"
proof (induction us arbitrary: st)
  case Nil
  then show ?case by simp
next
  case (Cons u us)
  show ?case
  proof (cases "ping_user now pt st u")
    case (Blocked st' t)
    then show ?thesis using ping_user_quiet[of now pt st u e] by simp
  next
    case (Proceeds st' t)
    then show ?thesis
      using ping_user_quiet[of now pt st u e] Cons.IH[of st']
      by (cases "ping_users now pt st' us") (simp_all add: shutdowns_append recipients_of_append)
  qed
qed

text \<open>
  Claim C8 (the ping task closes the connection of every user whose last pong is older
  than the ping interval, with a ping-timeout message) does not hold of the code. On the
  expiry branch \<open>send_reply\<close> locks the mutex of the user, which the loop body holds
  already, so the task never gets to the \<open>ERROR\<close> line nor to the \<open>shutdown\<close> of the
  socket: in no state and at no time does a round shut a socket down or send that line.
  With alice and bob in \<open>#room\<close> and alice silent since 1100, the round at 1000000
  takes alice out of the channel, sends bob her \<open>QUIT\<close> line with
  \<open>Ping timeout: 998900 seconds\<close>, and stays there: the connection of alice is not
  closed, and bob, next in the list and not timed out, is not pinged.
\<close>

theorem ping_round_never_closes_connection:
  "shutdowns (ping_trace (ping_round now pt st)) = []
   \<and> recipients_of (ErrorLine e) (ping_trace (ping_round now pt st)) = []
   \<and> ping_expired 1000000 120000 (user_at alice_timed_out 1)
   \<and> \<not> ping_expired 1000000 120000 (user_at alice_timed_out 2)
   \<and> blocked (ping_round 1000000 120000 alice_timed_out)
   \<and> channels (ping_state (ping_round 1000000 120000 alice_timed_out))
       = [room [\<lparr> m_user = 2, m_modes = CHANNEL_USER_MODE_NONE \<rparr>] 1 168]
   \<and> u_channelcount (user_at (ping_state (ping_round 1000000 120000 alice_timed_out)) 1) = 0
   \<and> recipients_of (QuitLine 1 ''#room'' (PingTimeout 998900))
        (ping_trace (ping_round 1000000 120000 alice_timed_out)) = [2]
   \<and> recipients_of (PingLine 1000000) (ping_trace (ping_round 1000000 120000 alice_timed_out)) = []
   \<and> u_lastping (user_at (ping_state (ping_round 1000000 120000 alice_timed_out)) 2) = 999900"
proof -
  have g: "shutdowns (ping_trace (ping_round now pt st)) = []
      \<and> recipients_of (ErrorLine e) (ping_trace (ping_round now pt st)) = []"
    using ping_users_quiet[of now pt st "users st" e] by (simp add: ping_round_def)
  have r: "ping_round 1000000 120000 alice_timed_out =
      Blocked (fst (leave_all_channels alice_timed_out 1 (PingTimeout 998900)))
              (snd (leave_all_channels alice_timed_out 1 (PingTimeout 998900)))"
    by (simp add: ping_round_def ping_user_def send_reply_def ping_expired_def split_beta
        alice_timed_out_def both_in_room_def)
  have l: "leave_all_channels alice_timed_out 1 (PingTimeout 998900) =
      (alice_timed_out\<lparr> channels := [room [\<lparr> m_user = 2, m_modes = CHANNEL_USER_MODE_NONE \<rparr>] 1 168],
          user_at := (user_at alice_timed_out)
            (1 := (user_at alice_timed_out 1)\<lparr> u_channelcount := 0 \<rparr>) \<rparr>,
       snd (leave_all_channels alice_timed_out 1 (PingTimeout 998900)))"
    by (simp add: leave_all_channels_def drop_member_if_present_def without_member_def
        less_one_channel_def remove_channel_def decrement_def
        channel_broadcast_def alice_timed_out_def both_in_room_def room_def operator_alice_def
        alice_def bob_def blank_user_def u32_def Let_def split_beta fun_eq_iff)
  have q: "recipients_of (QuitLine 1 ''#room'' (PingTimeout 998900))
        (snd (leave_all_channels alice_timed_out 1 (PingTimeout 998900))) = [2]"
    by (simp add: leave_all_channels_def drop_member_if_present_def without_member_def
        less_one_channel_def remove_channel_def decrement_def
        channel_broadcast_def alice_timed_out_def both_in_room_def room_def operator_alice_def
        alice_def bob_def blank_user_def u32_def Let_def split_beta)
  have p: "recipients_of (PingLine 1000000)
        (snd (leave_all_channels alice_timed_out 1 (PingTimeout 998900))) = []"
    by (rule recipients_of_leave_all)
  have e1: "ping_expired 1000000 120000 (user_at alice_timed_out 1)"
    and e2: "\<not> ping_expired 1000000 120000 (user_at alice_timed_out 2)"
    by (simp_all add: ping_expired_def alice_timed_out_def both_in_room_def alice_def bob_def
        blank_user_def)
  have c: "channels (fst (leave_all_channels alice_timed_out 1 (PingTimeout 998900)))
       = [room [\<lparr> m_user = 2, m_modes = CHANNEL_USER_MODE_NONE \<rparr>] 1 168]"
    and n: "u_channelcount (user_at (fst (leave_all_channels alice_timed_out 1 (PingTimeout 998900))) 1) = 0"
    and b: "u_lastping (user_at (fst (leave_all_channels alice_timed_out 1 (PingTimeout 998900))) 2) = 999900"
    by (subst l, simp add: alice_timed_out_def both_in_room_def)+
  show ?thesis
    unfolding r using g e1 e2 c n b q p by simp
qed

text \<open>
  What \<open>privmsg\<close> does for the other senders: an absent or empty message is answered
  with 412 and one of 510 bytes or more with 416, before the target is looked at; a sender
  who is a member of a moderated channel and has no voice gets 489, or with reduced
  moderation has the message delivered to the half-operators and above.
\<close>

lemma privmsg_without_text:
  "message = None \<or> message = Some [] \<Longrightarrow>
   privmsg now st user channame notice message
     = Inr (- 1, user_setactive now st user, [Send user (Numeric 412)])"
  by (auto simp: privmsg_def Let_def)

lemma privmsg_too_long:
  "510 \<le> length text \<Longrightarrow>
   privmsg now st user channame notice (Some text)
     = Inr (- 1, user_setactive now st user, [Send user (Numeric 416)])"
  by (auto simp: privmsg_def Let_def)

lemma privmsg_member_without_voice:
  assumes "text \<noteq> []" and "length text < 510" and "IS_CHANNEL_NAME channame"
    and "find_channel channame (channels (user_setactive now st user)) = Some ci"
    and "channel = channels (user_setactive now st user) ! ci"
    and "find_member user (ch_members channel) = Some m"
    and "ch_modes channel AND CHANNEL_MODE_MODERATED \<noteq> 0"
    and "privilege (m_modes m) CHANNEL_USER_MODE_VOICE = 0"
    and "locks = [RdLock LChannels, RdLock (LMembers (ch_name channel)),
                  Unlock (LMembers (ch_name channel)), Unlock LChannels]"
  shows "privmsg now st user channame notice (Some text)
     = Inr (if ch_modes channel AND CHANNEL_MODE_REDUCED_MODERATION \<noteq> 0
            then (0, user_setactive now st user,
                  locks @ channel_broadcast True channel (Some user) CHANNEL_USER_MODE_HALFOP
                            (PrivmsgLine user notice (ch_name channel) text))
            else (- 1, user_setactive now st user, locks @ [Send user (Numeric 489)]))"
  using assms by (simp add: privmsg_def Let_def authorized_atleast_def)

section \<open>The channel count of a user\<close>

lemma filter_length_update:
  "i < length xs \<Longrightarrow>
   length (filter P (xs[i := y])) + (if P (xs ! i) then 1 else 0)
     = length (filter P xs) + (if P y then 1 else 0)"
proof (induction xs arbitrary: i)
  case Nil
  then show ?case by simp
next
  case (Cons x xs)
  then show ?case by (cases i) auto
qed

lemma filter_length_remove:
  assumes "i < length xs"
  shows "length (filter P (remove_channel i xs)) + (if P (xs ! i) then 1 else 0)
           = length (filter P xs)"
proof -
  have "xs = take i xs @ xs ! i # drop (Suc i) xs"
    using assms by (rule id_take_nth_drop)
  then have "filter P xs = filter P (take i xs) @ filter P [xs ! i] @ filter P (drop (Suc i) xs)"
    by (metis append_Cons append_Nil filter_append)
  then show ?thesis by (simp add: remove_channel_def)
qed

lemma find_channel_Some:
  "find_channel name cs = Some i \<Longrightarrow> i < length cs \<and> ch_name (cs ! i) = name"
  by (induction cs arbitrary: i) (auto split: if_splits)

lemma find_member_None: "find_member u ms = None \<longleftrightarrow> u \<notin> m_user ` set ms"
  by (induction ms) auto

lemma remove_member_users:
  "distinct (map m_user ms) \<Longrightarrow>
   m_user ` set (remove_member u ms) = m_user ` set ms - {u}"
proof (induction ms)
  case Nil
  then show ?case by simp
next
  case (Cons m ms)
  show ?case
  proof (cases "m_user m = u")
    case True
    then have "u \<notin> m_user ` set ms" using Cons.prems by auto
    then show ?thesis using True by auto
  next
    case False
    then show ?thesis using Cons by auto
  qed
qed

lemma remove_member_distinct:
  "distinct (map m_user ms) \<Longrightarrow> distinct (map m_user (remove_member u ms))"
proof (induction ms)
  case Nil
  then show ?case by simp
next
  case (Cons m ms)
  then show ?case using remove_member_users[of ms u] by auto
qed

lemma is_member_without:
  "distinct (map m_user (ch_members c)) \<Longrightarrow>
   is_member u (without_member v c) = (is_member u c \<and> u \<noteq> v)"
  by (auto simp: is_member_def without_member_def remove_member_users)

lemma is_member_empty: "ch_members c = [] \<Longrightarrow> \<not> is_member u c"
  by (simp add: is_member_def)

lemma set_remove_channel: "set (remove_channel i cs) \<subseteq> set cs"
  by (auto simp: remove_channel_def dest: in_set_takeD in_set_dropD)

lemma channels_of_count: "channels_of st u = count_in u (channels st)"
  by (simp add: channels_of_def count_in_def)

lemma is_member_find: "is_member u c \<longleftrightarrow> find_member u (ch_members c) \<noteq> None"
  by (simp add: is_member_def find_member_None)

lemma channels_without_count:
  assumes i: "ci < length cs" and d: "members_distinct cs"
  shows "count_in u (channels_without ci v cs)
           + (if u = v \<and> is_member v (cs ! ci) then 1 else 0) = count_in u cs"
proof -
  let ?c = "cs ! ci"
  let ?c' = "if find_member v (ch_members ?c) \<noteq> None then without_member v ?c else ?c"
  let ?cs1 = "cs[ci := ?c']"
  have dc: "distinct (map m_user (ch_members ?c))"
    using i d by (simp add: members_distinct_def)
  have m: "is_member u ?c' = (is_member u ?c \<and> \<not> (u = v \<and> is_member v ?c))"
    using is_member_without[OF dc, of u v] by (auto simp: is_member_find)
  have one: "count_in u ?cs1 + (if is_member u ?c then 1 else 0)
               = count_in u cs + (if is_member u ?c' then 1 else 0)"
    unfolding count_in_def using filter_length_update[OF i] by blast
  have i1: "ci < length ?cs1" using i by simp
  have two: "ch_members ?c' = [] \<Longrightarrow> count_in u (remove_channel ci ?cs1) = count_in u ?cs1"
  proof -
    assume e: "ch_members ?c' = []"
    have "\<not> is_member u (?cs1 ! ci)" using e i by (simp add: is_member_empty)
    then show ?thesis
      unfolding count_in_def using filter_length_remove[OF i1, of "is_member u"] by simp
  qed
  have eq: "count_in u (channels_without ci v cs) = count_in u ?cs1"
    using two by (simp add: channels_without_def Let_def)
  show ?thesis unfolding eq using one m by auto
qed

lemma channels_without_distinct:
  assumes i: "ci < length cs" and d: "members_distinct cs"
  shows "members_distinct (channels_without ci v cs)"
proof -
  let ?c = "cs ! ci"
  let ?c' = "if find_member v (ch_members ?c) \<noteq> None then without_member v ?c else ?c"
  let ?cs1 = "cs[ci := ?c']"
  have dc: "distinct (map m_user (ch_members ?c))"
    using i d by (simp add: members_distinct_def)
  have dc': "distinct (map m_user (ch_members ?c'))"
    using dc remove_member_distinct[OF dc, of v] by (simp add: without_member_def)
  have d1: "members_distinct ?cs1"
    unfolding members_distinct_def
  proof
    fix c assume "c \<in> set ?cs1"
    then have "c = ?c' \<or> c \<in> set cs" using set_update_subset_insert[of cs ci ?c'] by auto
    then show "distinct (map m_user (ch_members c))"
      using dc' d by (auto simp: members_distinct_def)
  qed
  have d2: "members_distinct (remove_channel ci ?cs1)"
    using d1 set_remove_channel[of ci ?cs1] by (auto simp: members_distinct_def)
  show ?thesis using d1 d2 by (simp add: channels_without_def Let_def)
qed

lemma kick_member_state:
  "ci < length (channels st) \<Longrightarrow>
   fst (kick_member st ci kicker kicked message)
     = st\<lparr> channels := channels_without ci kicked (channels st) \<rparr>"
  by (simp add: kick_member_def channels_without_def Let_def)

lemma kick_member_out_of_range:
  "\<not> ci < length (channels st) \<Longrightarrow> fst (kick_member st ci kicker kicked message) = st"
  by (simp add: kick_member_def)

lemma drop_member_state:
  "ci < length (channels st) \<Longrightarrow>
   fst (drop_member_if_present st ci user message)
     = (if is_member user (channels st ! ci)
        then (less_one_channel st user)\<lparr> channels := channels_without ci user (channels st) \<rparr>
        else st\<lparr> channels := channels_without ci user (channels st) \<rparr>)"
  by (simp add: drop_member_if_present_def channels_without_def less_one_channel_def
      is_member_find Let_def)

lemma leave_channel_state:
  "find_channel name (channels st) = Some ci \<Longrightarrow>
   fst (snd (leave_channel now st user name))
     = (if is_member user (channels st ! ci)
        then (less_one_channel (user_setactive now st user) user)
               \<lparr> channels := channels_without ci user (channels st) \<rparr>
        else (user_setactive now st user)\<lparr> channels := channels_without ci user (channels st) \<rparr>)"
  by (simp add: leave_channel_def channels_without_def less_one_channel_def
      user_setactive_def is_member_find Let_def)

lemma leave_channel_no_channel:
  "find_channel name (channels st) = None \<Longrightarrow>
   fst (snd (leave_channel now st user name)) = user_setactive now st user"
proof -
  have "channels (user_setactive now st user) = channels st"
    by (simp add: user_setactive_def)
  then show "find_channel name (channels st) = None \<Longrightarrow> ?thesis"
    by (simp add: leave_channel_def Let_def)
qed

lemma irc_inv_alt:
  "irc_inv st \<longleftrightarrow>
     members_distinct (channels st)
     \<and> (\<forall>u. int (count_in u (channels st)) \<le> u_channelcount (user_at st u)
             \<and> u_channelcount (user_at st u) \<le> 51)"
  by (simp add: irc_inv_def members_distinct_def channels_of_count)

lemma excess_alt: "excess st u = u_channelcount (user_at st u) - int (count_in u (channels st))"
  by (simp add: excess_def channels_of_count)

lemma kick_excess:
  assumes inv: "irc_inv st"
  shows "irc_inv (fst (kick_member st ci kicker kicked message))
       \<and> (\<forall>u. excess (fst (kick_member st ci kicker kicked message)) u
              = excess st u
                + (if u = kicked \<and> ci < length (channels st) \<and> is_member kicked (channels st ! ci)
                   then 1 else 0))"
proof (cases "ci < length (channels st)")
  case False
  then show ?thesis using inv by (simp add: kick_member_out_of_range)
next
  case True
  have d: "members_distinct (channels st)" using inv by (simp add: irc_inv_alt)
  note c = channels_without_count[OF True d, of _ kicked]
  note dd = channels_without_distinct[OF True d, of kicked]
  have cnt: "\<forall>u. int (count_in u (channels st)) \<le> u_channelcount (user_at st u)
             \<and> u_channelcount (user_at st u) \<le> 51"
    using inv by (simp add: irc_inv_alt)
  have a: "irc_inv (fst (kick_member st ci kicker kicked message))"
    unfolding kick_member_state[OF True] irc_inv_alt
  proof (intro conjI allI)
    show "members_distinct (channels (st\<lparr>channels := channels_without ci kicked (channels st)\<rparr>))"
      using dd by simp
  next
    fix u
    show "int (count_in u (channels (st\<lparr>channels := channels_without ci kicked (channels st)\<rparr>)))
            \<le> u_channelcount (user_at (st\<lparr>channels := channels_without ci kicked (channels st)\<rparr>) u)"
      using c[of u] spec[OF cnt, of u] by (auto split: if_splits)
  next
    fix u
    show "u_channelcount (user_at (st\<lparr>channels := channels_without ci kicked (channels st)\<rparr>) u) \<le> 51"
      using cnt by simp
  qed
  have b: "\<forall>u. excess (fst (kick_member st ci kicker kicked message)) u
              = excess st u
                + (if u = kicked \<and> ci < length (channels st) \<and> is_member kicked (channels st ! ci)
                   then 1 else 0)"
  proof
    fix u
    show "excess (fst (kick_member st ci kicker kicked message)) u
              = excess st u
                + (if u = kicked \<and> ci < length (channels st) \<and> is_member kicked (channels st ! ci)
                   then 1 else 0)"
      unfolding kick_member_state[OF True] excess_alt
      using c[of u] True by (auto split: if_splits)
  qed
  show ?thesis using a b by blast
qed

lemma removal_excess:
  assumes inv: "irc_inv st" and i: "ci < length (channels st)"
    and other: "channels st0 = channels st" "\<forall>u. u_channelcount (user_at st0 u) = u_channelcount (user_at st u)"
    and st': "st' = (if is_member user (channels st ! ci)
                     then (less_one_channel st0 user)\<lparr> channels := channels_without ci user (channels st) \<rparr>
                     else st0\<lparr> channels := channels_without ci user (channels st) \<rparr>)"
  shows "irc_inv st' \<and> (\<forall>u. excess st' u = excess st u)"
proof -
  have d: "members_distinct (channels st)" using inv by (simp add: irc_inv_alt)
  note c = channels_without_count[OF i d, of _ user]
  note dd = channels_without_distinct[OF i d, of user]
  have cnt: "\<forall>u. int (count_in u (channels st)) \<le> u_channelcount (user_at st u)
             \<and> u_channelcount (user_at st u) \<le> 51"
    using inv by (simp add: irc_inv_alt)
  have ch: "channels st' = channels_without ci user (channels st)"
    using st' by (simp add: less_one_channel_def)
  have cc: "\<forall>u. u_channelcount (user_at st' u)
              = u_channelcount (user_at st u)
                - (if u = user \<and> is_member user (channels st ! ci) then 1 else 0)"
    using st' other(2) by (simp add: less_one_channel_def)
  have a: "irc_inv st'"
    unfolding irc_inv_alt ch
  proof (intro conjI allI)
    show "members_distinct (channels_without ci user (channels st))" using dd .
  next
    fix u
    show "int (count_in u (channels_without ci user (channels st))) \<le> u_channelcount (user_at st' u)"
      using c[of u] spec[OF cnt, of u] spec[OF cc, of u] by (auto split: if_splits)
  next
    fix u
    show "u_channelcount (user_at st' u) \<le> 51"
      using spec[OF cnt, of u] spec[OF cc, of u] by (auto split: if_splits)
  qed
  have b: "\<forall>u. excess st' u = excess st u"
  proof
    fix u
    show "excess st' u = excess st u"
      unfolding excess_alt ch using c[of u] spec[OF cc, of u] by (auto split: if_splits)
  qed
  show ?thesis using a b by blast
qed

lemma drop_excess:
  assumes inv: "irc_inv st"
  shows "irc_inv (fst (drop_member_if_present st ci user message))
       \<and> (\<forall>u. excess (fst (drop_member_if_present st ci user message)) u = excess st u)"
proof (cases "ci < length (channels st)")
  case False
  then show ?thesis using inv by (simp add: drop_member_if_present_def)
next
  case True
  show ?thesis
    using removal_excess[OF inv True _ _ drop_member_state[OF True], of ] by simp
qed

lemma leave_all_from_excess:
  "irc_inv st \<Longrightarrow>
   irc_inv (fst (leave_all_from n st ci user message))
   \<and> (\<forall>u. excess (fst (leave_all_from n st ci user message)) u = excess st u)"
proof (induction n arbitrary: st ci)
  case 0
  then show ?case by simp
next
  case (Suc n)
  let ?st1 = "fst (drop_member_if_present st ci user message)"
  let ?ci = "if length (channels ?st1) < length (channels st) then ci else Suc ci"
  have one: "irc_inv ?st1" "\<forall>u. excess ?st1 u = excess st u"
    using drop_excess[OF Suc.prems] by blast+
  have step: "fst (leave_all_from (Suc n) st ci user message)
                = fst (leave_all_from n ?st1 ?ci user message)"
    by (simp add: split_beta Let_def)
  show ?case
    unfolding step using Suc.IH[OF one(1), of ?ci] one(2) by simp
qed

lemma leave_all_excess:
  "irc_inv st \<Longrightarrow>
   irc_inv (fst (leave_all_channels st user message))
   \<and> (\<forall>u. excess (fst (leave_all_channels st user message)) u = excess st u)"
  using leave_all_from_excess[of st "length (channels st)" 0 user message]
  by (simp add: leave_all_channels_def split_beta)

lemma setactive_excess:
  "irc_inv st \<Longrightarrow>
   irc_inv (user_setactive now st user) \<and> (\<forall>u. excess (user_setactive now st user) u = excess st u)"
  by (simp add: irc_inv_def excess_def channels_of_def user_setactive_def)

lemma leave_channel_excess:
  assumes inv: "irc_inv st"
  shows "irc_inv (fst (snd (leave_channel now st user name)))
       \<and> (\<forall>u. excess (fst (snd (leave_channel now st user name))) u = excess st u)"
proof (cases "find_channel name (channels st)")
  case None
  show ?thesis
    unfolding leave_channel_no_channel[OF None] using setactive_excess[OF inv] .
next
  case (Some ci)
  have i: "ci < length (channels st)" using find_channel_Some[OF Some] by simp
  have a: "channels (user_setactive now st user) = channels st"
    and b: "\<forall>u. u_channelcount (user_at (user_setactive now st user) u) = u_channelcount (user_at st u)"
    by (simp_all add: user_setactive_def)
  show ?thesis
    using removal_excess[OF inv i a b leave_channel_state[OF Some]] .
qed

lemma handle_kick_excess:
  assumes inv: "irc_inv st"
  shows "irc_inv (fst (handle_kick st user channame kickusername reason))
       \<and> (\<forall>u. excess st u \<le> excess (fst (handle_kick st user channame kickusername reason)) u)"
proof -
  have k: "\<And>ci kicked. irc_inv (fst (kick_member st ci user kicked reason))
       \<and> (\<forall>u. excess st u \<le> excess (fst (kick_member st ci user kicked reason)) u)"
    using kick_excess[OF inv] by simp
  show ?thesis
    using inv k
    by (simp add: handle_kick_def Let_def split: option.splits)
qed

lemma join_result:
  fixes st :: irc_state and io :: join_io and user :: nat and name :: string
  defines "cs \<equiv> (if find_channel name (channels st) = None
                    then new_channel name (u_registered (user_at st user)) (log_opened io) # channels st
                    else channels st)"
    and "ci \<equiv> (case find_channel name (channels st) of None \<Rightarrow> 0 | Some i \<Rightarrow> i)"
  assumes j: "join_channel io now st user name = Inr (res, st', t)"
  shows "st' = st
       \<or> (u_channelcount (user_at st user) \<le> 50
          \<and> find_member user (ch_members (cs ! ci)) = None
          \<and> (\<exists>modes. st' = user_setactive now
                (st\<lparr> channels := cs[ci := (cs ! ci)
                        \<lparr> ch_members := \<lparr> m_user = user, m_modes = modes \<rparr> # ch_members (cs ! ci),
                          ch_membercount := u32 (ch_membercount (cs ! ci) + 1) \<rparr>],
                     user_at := (user_at st)
                       (user := (user_at st user)
                          \<lparr> u_channelcount := u_channelcount (user_at st user) + 1 \<rparr>) \<rparr>)
                user))"
  using j unfolding join_channel_def Let_def cs_def ci_def
  by (simp split: if_splits) blast+

lemma join_excess:
  assumes inv: "irc_inv st"
    and j: "join_channel io now st user name = Inr (res, st', t)"
  shows "irc_inv st' \<and> (\<forall>u. excess st' u = excess st u)"
proof -
  define cs where "cs = (if find_channel name (channels st) = None
                    then new_channel name (u_registered (user_at st user)) (log_opened io) # channels st
                    else channels st)"
  define ci where "ci = (case find_channel name (channels st) of None \<Rightarrow> 0 | Some i \<Rightarrow> i)"
  from join_result[OF j, folded cs_def ci_def]
  consider (same) "st' = st"
    | (joined) modes where "u_channelcount (user_at st user) \<le> 50"
        "find_member user (ch_members (cs ! ci)) = None"
        "st' = user_setactive now
                (st\<lparr> channels := cs[ci := (cs ! ci)
                        \<lparr> ch_members := \<lparr> m_user = user, m_modes = modes \<rparr> # ch_members (cs ! ci),
                          ch_membercount := u32 (ch_membercount (cs ! ci) + 1) \<rparr>],
                     user_at := (user_at st)
                       (user := (user_at st user)
                          \<lparr> u_channelcount := u_channelcount (user_at st user) + 1 \<rparr>) \<rparr>)
                user"
    by blast
  then show ?thesis
  proof cases
    case same
    then show ?thesis using inv by simp
  next
    case joined
    let ?c = "cs ! ci"
    let ?c' = "?c\<lparr> ch_members := \<lparr> m_user = user, m_modes = modes \<rparr> # ch_members ?c,
                   ch_membercount := u32 (ch_membercount ?c + 1) \<rparr>"
    have d0: "members_distinct (channels st)" using inv by (simp add: irc_inv_alt)
    have cnt: "\<forall>u. int (count_in u (channels st)) \<le> u_channelcount (user_at st u)
             \<and> u_channelcount (user_at st u) \<le> 51"
      using inv by (simp add: irc_inv_alt)
    have d: "members_distinct cs"
      using d0 by (simp add: cs_def members_distinct_def new_channel_def)
    have same_count: "\<And>u. count_in u cs = count_in u (channels st)"
      by (simp add: cs_def count_in_def is_member_def new_channel_def)
    have i: "ci < length cs"
    proof (cases "find_channel name (channels st)")
      case None
      then show ?thesis by (simp add: cs_def ci_def)
    next
      case (Some k)
      then show ?thesis using find_channel_Some[OF Some] by (simp add: cs_def ci_def)
    qed
    have notin: "\<not> is_member user ?c" using joined(2) by (simp add: is_member_find)
    have mem: "\<And>u. is_member u ?c' = (u = user \<or> is_member u ?c)"
      by (auto simp: is_member_def)
    have upd: "\<And>u. count_in u (cs[ci := ?c']) + (if is_member u ?c then 1 else 0)
                  = count_in u cs + (if is_member u ?c' then 1 else 0)"
      unfolding count_in_def using filter_length_update[OF i] by blast
    have cnt': "count_in u (cs[ci := ?c'])
                  = count_in u (channels st) + (if u = user then 1 else 0)" for u
      using upd[of u] mem[of u] notin same_count[of u] by (cases "u = user") auto
    have dc: "distinct (map m_user (ch_members ?c))"
      using d i by (simp add: members_distinct_def)
    have dc': "distinct (map m_user (ch_members ?c'))"
      using dc notin by (simp add: is_member_def)
    have d': "members_distinct (cs[ci := ?c'])"
      unfolding members_distinct_def
    proof
      fix c assume "c \<in> set (cs[ci := ?c'])"
      then have "c = ?c' \<or> c \<in> set cs" using set_update_subset_insert[of cs ci ?c'] by auto
      then show "distinct (map m_user (ch_members c))"
        using dc' d by (auto simp: members_distinct_def)
    qed
    have ch: "channels st' = cs[ci := ?c']"
      using joined(3) by (simp add: user_setactive_def)
    have cc: "\<And>u. u_channelcount (user_at st' u)
                = u_channelcount (user_at st u) + (if u = user then 1 else 0)"
      using joined(3) by (simp add: user_setactive_def)
    have a: "irc_inv st'"
      unfolding irc_inv_alt ch
    proof (intro conjI allI)
      show "members_distinct (cs[ci := ?c'])" using d' .
    next
      fix u
      show "int (count_in u (cs[ci := ?c'])) \<le> u_channelcount (user_at st' u)"
        using cnt'[of u] cc[of u] spec[OF cnt, of u] by (auto split: if_splits)
    next
      fix u
      show "u_channelcount (user_at st' u) \<le> 51"
        using cc[of u] spec[OF cnt, of u] joined(1) by (auto split: if_splits)
    qed
    have b: "\<forall>u. excess st' u = excess st u"
      unfolding excess_alt ch using cnt' cc by simp
    show ?thesis using a b by blast
  qed
qed

lemma step_excess:
  assumes inv: "irc_inv st" and s: "irc_step st c = Inr st'"
  shows "irc_inv st' \<and> (\<forall>u. excess st u \<le> excess st' u)"
proof (cases c)
  case (Join io now user name)
  then obtain res t where "join_channel io now st user name = Inr (res, st', t)"
    using s by (auto split: sum.splits)
  then show ?thesis using join_excess[OF inv] by fastforce
next
  case (Part now user name)
  then show ?thesis using s leave_channel_excess[OF inv, of now user name] by auto
next
  case (Quit user message)
  then show ?thesis using s leave_all_excess[OF inv, of user message] by auto
next
  case (Kick ci kicker kicked message)
  then show ?thesis using s kick_excess[OF inv, of ci kicker kicked message] by auto
next
  case (KickCommand user channame kickusername reason)
  then show ?thesis using s handle_kick_excess[OF inv, of user channame kickusername reason] by auto
qed

lemma run_excess:
  "irc_inv st \<Longrightarrow> irc_run st cs = Inr st' \<Longrightarrow>
   irc_inv st' \<and> (\<forall>u. excess st u \<le> excess st' u)"
proof (induction cs arbitrary: st)
  case Nil
  then show ?case by simp
next
  case (Cons c cs)
  from Cons.prems(2) obtain st1 where s1: "irc_step st c = Inr st1" and r: "irc_run st1 cs = Inr st'"
    by (auto split: sum.splits)
  have one: "irc_inv st1" "\<forall>u. excess st u \<le> excess st1 u"
    using step_excess[OF Cons.prems(1) s1] by blast+
  have two: "irc_inv st'" "\<forall>u. excess st1 u \<le> excess st' u"
    using Cons.IH[OF one(1) r] by blast+
  show ?case using one(2) two by (meson order_trans)
qed

lemma no_channels_inv: "no_channels st \<Longrightarrow> irc_inv st \<and> (\<forall>u. excess st u = 0)"
  by (simp add: no_channels_def irc_inv_def excess_def channels_of_def)

text \<open>
  Claim C10. Take any state reached from one without channels, and a user who is a member
  of the channel at some position. \<open>kick_member\<close> on that user leaves the channel
  list exactly as \<open>leave_channel\<close> and \<open>drop_member_if_present\<close> do (the membership
  is removed and the member count of the channel decremented, the channel dropped when
  it is left empty), and the user is in one channel less; but the two latter also
  decrement the channel count of the user, while the kick leaves every field of every
  user as it was. From then on, whatever calls follow, the channel count of the kicked
  user exceeds the number of channels the user is in; and it is this stored count that
  \<open>join_channel\<close> compares with \<open>MAX_CHANNELS\<close>: a join under a well-formed name is
  refused with numeric 405 exactly when the stored count is above 50.
\<close>

theorem kick_leaves_channel_count_inflated:
  assumes start: "no_channels st0"
    and before: "irc_run st0 calls = Inr st1"
    and pos: "ci < length (channels st1)"
    and mem: "is_member kicked (channels st1 ! ci)"
    and after: "irc_run (fst (kick_member st1 ci kicker kicked message)) later = Inr st3"
  shows "fst (kick_member st1 ci kicker kicked message)
           = st1\<lparr> channels := channels_without ci kicked (channels st1) \<rparr>
       \<and> channels_without ci kicked (channels st1)
           = (if ch_members (without_member kicked (channels st1 ! ci)) = []
              then remove_channel ci ((channels st1)[ci := without_member kicked (channels st1 ! ci)])
              else (channels st1)[ci := without_member kicked (channels st1 ! ci)])
       \<and> ch_membercount (without_member kicked (channels st1 ! ci))
           = decrement (ch_membercount (channels st1 ! ci))
       \<and> \<not> is_member kicked (without_member kicked (channels st1 ! ci))
       \<and> channels_of (fst (kick_member st1 ci kicker kicked message)) kicked + 1
           = channels_of st1 kicked
       \<and> fst (drop_member_if_present st1 ci kicked quit)
           = (less_one_channel st1 kicked)\<lparr> channels := channels_without ci kicked (channels st1) \<rparr>
       \<and> (find_channel name (channels st1) = Some ci \<longrightarrow>
            fst (snd (leave_channel now st1 kicked name))
              = (less_one_channel (user_setactive now st1 kicked) kicked)
                  \<lparr> channels := channels_without ci kicked (channels st1) \<rparr>)
       \<and> u_channelcount (user_at (less_one_channel st1 kicked) kicked)
           = u_channelcount (user_at st1 kicked) - 1
       \<and> int (channels_of st3 kicked) < u_channelcount (user_at st3 kicked)
       \<and> (VALID_CHANNEL_NAME name' \<and> length name' \<le> MAX_CHANNEL_LENGTH \<and> valid_channame name' \<longrightarrow>
            (join_channel io now' st3 kicked name' = Inr (0, st3, [Send kicked (Numeric 405)]))
              = (MAX_CHANNELS < u_channelcount (user_at st3 kicked)))"
proof -
  let ?st2 = "fst (kick_member st1 ci kicker kicked message)"
  let ?c = "channels st1 ! ci"
  have inv0: "irc_inv st0" and ex0: "\<forall>u. excess st0 u = 0"
    using no_channels_inv[OF start] by blast+
  have inv1: "irc_inv st1" and ex1: "\<forall>u. excess st0 u \<le> excess st1 u"
    using run_excess[OF inv0 before] by blast+
  have inv2: "irc_inv ?st2"
    and ex2: "\<forall>u. excess ?st2 u = excess st1 u
                + (if u = kicked \<and> ci < length (channels st1) \<and> is_member kicked (channels st1 ! ci)
                   then 1 else 0)"
    using kick_excess[OF inv1, of ci kicker kicked message] by blast+
  have inv3: "irc_inv st3" and ex3: "\<forall>u. excess ?st2 u \<le> excess st3 u"
    using run_excess[OF inv2 after] by blast+
  have d: "members_distinct (channels st1)" using inv1 by (simp add: irc_inv_alt)
  have dc: "distinct (map m_user (ch_members ?c))"
    using d pos by (simp add: members_distinct_def)
  have found: "find_member kicked (ch_members ?c) \<noteq> None" using mem by (simp add: is_member_find)
  have a1: "?st2 = st1\<lparr> channels := channels_without ci kicked (channels st1) \<rparr>"
    using kick_member_state[OF pos] .
  have a2: "channels_without ci kicked (channels st1)
           = (if ch_members (without_member kicked ?c) = []
              then remove_channel ci ((channels st1)[ci := without_member kicked ?c])
              else (channels st1)[ci := without_member kicked ?c])"
    using found by (simp add: channels_without_def Let_def)
  have a3: "ch_membercount (without_member kicked ?c) = decrement (ch_membercount ?c)"
    by (simp add: without_member_def)
  have a4: "\<not> is_member kicked (without_member kicked ?c)"
    using is_member_without[OF dc, of kicked kicked] by simp
  have a5: "channels_of ?st2 kicked + 1 = channels_of st1 kicked"
    unfolding a1 channels_of_count
    using channels_without_count[OF pos d, of kicked kicked] mem by simp
  have b1: "fst (drop_member_if_present st1 ci kicked quit)
           = (less_one_channel st1 kicked)\<lparr> channels := channels_without ci kicked (channels st1) \<rparr>"
    using drop_member_state[OF pos, of kicked quit] mem by simp
  have b2: "find_channel name (channels st1) = Some ci \<longrightarrow>
            fst (snd (leave_channel now st1 kicked name))
              = (less_one_channel (user_setactive now st1 kicked) kicked)
                  \<lparr> channels := channels_without ci kicked (channels st1) \<rparr>"
    using leave_channel_state[of name st1 ci now kicked] mem by simp
  have b3: "u_channelcount (user_at (less_one_channel st1 kicked) kicked)
           = u_channelcount (user_at st1 kicked) - 1"
    by (simp add: less_one_channel_def)
  have "1 \<le> excess ?st2 kicked"
    using spec[OF ex2, of kicked] spec[OF ex1, of kicked] spec[OF ex0, of kicked] pos mem by simp
  then have "1 \<le> excess st3 kicked" using spec[OF ex3, of kicked] by simp
  then have c: "int (channels_of st3 kicked) < u_channelcount (user_at st3 kicked)"
    by (simp add: excess_def)
  have e: "VALID_CHANNEL_NAME name' \<and> length name' \<le> MAX_CHANNEL_LENGTH \<and> valid_channame name' \<longrightarrow>
            (join_channel io now' st3 kicked name' = Inr (0, st3, [Send kicked (Numeric 405)]))
              = (MAX_CHANNELS < u_channelcount (user_at st3 kicked))"
    by (simp add: join_channel_def Let_def)
  show ?thesis using a1 a2 a3 a4 a5 b1 b2 b3 c e by blast
qed

lemma bob_joins:
  "irc_run lobby [Join allocations_succeed 100 1 ''#room'', Join allocations_succeed 101 2 ''#room'']
     = Inr both_in_room"
  by (simp add: lobby_def both_in_room_def allocations_succeed_def join_channel_def
      VALID_CHANNEL_NAME_def IS_CHANNEL_NAME_def valid_channame_def isalnum_def new_channel_def
      user_setactive_def room_def operator_alice_def alice_def bob_def blank_user_def u32_def
      Let_def fun_eq_iff)

lemma bob_kicked_then_joins:
  "irc_run (fst (kick_member both_in_room 0 1 2 ''bye'')) [Join allocations_succeed 102 2 ''#other'']
     = Inr bob_elsewhere"
  by (simp add: both_in_room_def bob_elsewhere_def kick_member_def without_member_def
      decrement_def remove_channel_def channel_broadcast_def
      allocations_succeed_def join_channel_def
      VALID_CHANNEL_NAME_def IS_CHANNEL_NAME_def valid_channame_def isalnum_def new_channel_def
      user_setactive_def room_def operator_alice_def alice_def bob_def blank_user_def u32_def
      Let_def fun_eq_iff)

theorem kick_leaves_channel_count_inflated_witness:
  "no_channels lobby
   \<and> irc_run lobby [Join allocations_succeed 100 1 ''#room'',
                      Join allocations_succeed 101 2 ''#room''] = Inr both_in_room
   \<and> is_member 2 (channels both_in_room ! 0)
   \<and> irc_run (fst (kick_member both_in_room 0 1 2 ''bye''))
         [Join allocations_succeed 102 2 ''#other''] = Inr bob_elsewhere
   \<and> u_channelcount (user_at both_in_room 2) = 1
   \<and> channels_of both_in_room 2 = 1
   \<and> u_channelcount (user_at (fst (kick_member both_in_room 0 1 2 ''bye'')) 2) = 1
   \<and> channels_of (fst (kick_member both_in_room 0 1 2 ''bye'')) 2 = 0
   \<and> u_channelcount (user_at (fst (drop_member_if_present both_in_room 0 2 (QuitText ''bye''))) 2) = 0
   \<and> u_channelcount (user_at bob_elsewhere 2) = 2
   \<and> int (channels_of bob_elsewhere 2) < u_channelcount (user_at bob_elsewhere 2)"
proof -
  have s: "no_channels lobby"
    by (simp add: no_channels_def lobby_def alice_def bob_def blank_user_def)
  have p: "(0::nat) < length (channels both_in_room)" by (simp add: both_in_room_def)
  have m: "is_member 2 (channels both_in_room ! 0)"
    by (simp add: is_member_def both_in_room_def room_def)
  note t = kick_leaves_channel_count_inflated[OF s bob_joins p m bob_kicked_then_joins,
      where quit = "QuitText ''bye''"]
  have c1: "u_channelcount (user_at both_in_room 2) = 1"
    and n1: "channels_of both_in_room 2 = 1"
    by (simp_all add: both_in_room_def bob_def blank_user_def channels_of_def is_member_def
        room_def operator_alice_def)
  have k: "fst (kick_member both_in_room 0 1 2 ''bye'')
             = both_in_room\<lparr> channels := channels_without 0 2 (channels both_in_room) \<rparr>"
    using t by blast
  have c2: "u_channelcount (user_at (fst (kick_member both_in_room 0 1 2 ''bye'')) 2) = 1"
    unfolding k using c1 by simp
  have "channels_of (fst (kick_member both_in_room 0 1 2 ''bye'')) 2 + 1
          = channels_of both_in_room 2"
    using t by blast
  then have n2: "channels_of (fst (kick_member both_in_room 0 1 2 ''bye'')) 2 = 0"
    using n1 by simp
  have q: "fst (drop_member_if_present both_in_room 0 2 (QuitText ''bye''))
             = (less_one_channel both_in_room 2)
                 \<lparr> channels := channels_without 0 2 (channels both_in_room) \<rparr>"
    using t by blast
  have c3: "u_channelcount (user_at (fst (drop_member_if_present both_in_room 0 2 (QuitText ''bye''))) 2) = 0"
    unfolding q using c1 by (simp add: less_one_channel_def)
  have c4: "u_channelcount (user_at bob_elsewhere 2) = 2"
    by (simp add: bob_elsewhere_def bob_def blank_user_def)
  have e: "int (channels_of bob_elsewhere 2) < u_channelcount (user_at bob_elsewhere 2)"
    using t by blast
  show ?thesis using s bob_joins m bob_kicked_then_joins c1 n1 c2 n2 c3 c4 e by blast
qed

section \<open>Properties of the SFTP read\<close>

lemma read_cap_value: "read_cap = 65536"
  by (simp add: read_cap_def)

lemma capped_len_value: "unat (capped_len len) = min (unat len) 65536"
  by (simp add: capped_len_def read_cap_value word_less_nat_alt min_def)

text \<open>
  Claim C7 does not hold of the code: the constant of the cap, \<open>2 << 15\<close>, is 65536
  and not the 32768 of its comment. A request for 40000 bytes of a file that has them is
  not reduced: the buffer is allocated for 40000 bytes and 40000 bytes are read and
  returned.
\<close>

theorem handle_read_returns_40000_bytes:
  "handle_read read_succeeds (Some big_file) 40000 0
     = (0, [Malloc 40000, Fread 40000, ReplyData (replicate 40000 0), Free])
   \<and> unat (capped_len 40000) = 40000
   \<and> unat (capped_len 100000) = 65536"
  by (simp add: handle_read_def big_file_def read_succeeds_def capped_len_value Let_def)

end
